theory Spec2Isabelle
  imports Main "HOL-Library.Product_Lexorder"
begin

section \<open>The relational store behind the MySQL adapter\<close>

text \<open>
  \<^verbatim>\<open>src/lib/db/mysql.js\<close> holds one method, \<open>MySQLAdapter.setup\<close>, which sends a single
  data-definition statement to the server. The statement is embedded as data (column by
  column, in the order of the source), and the server's reading of it as functions over
  that data: what a column of a given type can hold, what \<open>CREATE TABLE IF NOT EXISTS\<close>
  does to a database, and how an \<open>AUTO_INCREMENT\<close> key is assigned on insert.

  The server is taken in its default strict SQL mode on a transactional engine (the
  statement asks for InnoDB): a value outside a column's domain is refused with an error
  instead of being cut or replaced. A \<open>char\<close> of the model stands for one character of
  the column's character set.
\<close>

datatype coltype = BIGINT | INTEGER | VARCHAR nat | ENUM "string list" | TEXT

datatype sqlval = SNull | SInt int | SStr string

datatype col_attr = NOT_NULL | DEFAULT sqlval | AUTO_INCREMENT | PRIMARY_KEY

datatype column = Column (col_name: string) (col_type: coltype) (col_attrs: "col_attr list")

datatype index_key = KEY (key_name: string) (key_cols: "string list")

record table_def =
  columns :: "column list"
  keys :: "index_key list"
  engine :: string
  charset :: string

type_synonym row = "(string \<times> sqlval) list"

record table =
  tdef :: table_def
  trows :: "row list"
  auto_inc :: int

type_synonym database = "string \<rightharpoonup> table"

datatype sql_error =
    ER_TABLE_EXISTS
  | ER_NO_SUCH_TABLE
  | ER_WRONG_DEFINITION
  | ER_BAD_FIELD string
  | ER_BAD_NULL string
  | ER_DATA_OUT_OF_DOMAIN string
  | ER_DUP_ENTRY
  | ER_FIELD_SPECIFIED_TWICE

datatype stmt = CREATE_TABLE (if_not_exists: bool) string table_def

subsection \<open>The statement of \<open>setup()\<close>\<close>

text \<open>
  The table definition between the parentheses of the source's
  \<^verbatim>\<open>CREATE TABLE IF NOT EXISTS tasks ( ... ) ENGINE=InnoDB DEFAULT CHARSET=utf8mb4\<close>.
  \<open>INT\<close> is written \<open>INTEGER\<close> (its synonym).
\<close>

definition status_values :: "string list" where
  "status_values =
     [''pending'', ''running'', ''completed'', ''failed'', ''timeout'',
      ''permanently_failed'', ''paused'']"

definition tasks_def :: table_def where
  "tasks_def = \<lparr>
     columns = [
       Column ''id'' BIGINT [AUTO_INCREMENT, PRIMARY_KEY],
       Column ''name'' (VARCHAR 255) [NOT_NULL],
       Column ''type'' (ENUM [''async'', ''cron'']) [NOT_NULL],
       Column ''status'' (ENUM status_values) [NOT_NULL],
       Column ''priority'' INTEGER [DEFAULT (SInt 0)],
       Column ''payload'' TEXT [],
       Column ''cron_expr'' (VARCHAR 100) [],
       Column ''next_run_time'' BIGINT [NOT_NULL],
       Column ''last_active_time'' BIGINT [],
       Column ''timeout'' INTEGER [DEFAULT (SInt 60)],
       Column ''retry_count'' INTEGER [DEFAULT (SInt 0)],
       Column ''max_retries'' INTEGER [DEFAULT (SInt 3)],
       Column ''retry_interval'' INTEGER [DEFAULT (SInt 0)],
       Column ''created_at'' BIGINT [],
       Column ''result'' TEXT [],
       Column ''error'' TEXT []],
     keys = [
       KEY ''idx_status_priority_next_run_time'' [''status'', ''priority'', ''next_run_time''],
       KEY ''idx_name'' [''name'']],
     engine = ''InnoDB'',
     charset = ''utf8mb4'' \<rparr>"

definition create_tasks :: stmt where
  "create_tasks = CREATE_TABLE True ''tasks'' tasks_def"

subsection \<open>Data definition on the server\<close>

definition has_attr :: "col_attr \<Rightarrow> column \<Rightarrow> bool" where
  "has_attr a c = (a \<in> set (col_attrs c))"

definition integer_type :: "coltype \<Rightarrow> bool" where
  "integer_type ty = (ty = BIGINT \<or> ty = INTEGER)"

text \<open>
  A definition the server accepts: column names and key names are distinct, every key
  is over existing columns, and an \<open>AUTO_INCREMENT\<close> column is unique, of integer type
  and a key.
\<close>

definition def_ok :: "table_def \<Rightarrow> bool" where
  "def_ok d =
     (columns d \<noteq> [] \<and>
      distinct (map col_name (columns d)) \<and>
      distinct (map key_name (keys d)) \<and>
      list_all (\<lambda>k. key_cols k \<noteq> [] \<and> distinct (key_cols k) \<and>
                  list_all (\<lambda>n. n \<in> set (map col_name (columns d))) (key_cols k)) (keys d) \<and>
      length (filter (has_attr PRIMARY_KEY) (columns d)) \<le> 1 \<and>
      length (filter (has_attr AUTO_INCREMENT) (columns d)) \<le> 1 \<and>
      list_all (\<lambda>c. integer_type (col_type c) \<and>
                  (has_attr PRIMARY_KEY c \<or>
                   list_ex (\<lambda>k. hd (key_cols k) = col_name c) (keys d)))
        (filter (has_attr AUTO_INCREMENT) (columns d)))"

definition new_table :: "table_def \<Rightarrow> table" where
  "new_table d = \<lparr> tdef = d, trows = [], auto_inc = 1 \<rparr>"

fun execute :: "stmt \<Rightarrow> database \<Rightarrow> sql_error + database" where
  "execute (CREATE_TABLE ine n d) db =
     (case db n of
        Some t \<Rightarrow> if ine then Inr db else Inl ER_TABLE_EXISTS
      | None \<Rightarrow> if def_ok d then Inr (db(n \<mapsto> new_table d)) else Inl ER_WRONG_DEFINITION)"

subsection \<open>\<open>MySQLAdapter.setup\<close>\<close>

text \<open>
  Modelled from the spec: \<open>this.pool\<close> is inherited from \<open>BaseDBAdapter\<close>
  (\<^verbatim>\<open>./base\<close>, not among the sources). The adapter is a thin wrapper over the database
  driver; \<open>pool\<close> lends a connection to the callback and gives back what the callback
  returns. The connection is the database it talks to.
\<close>

definition pool :: "(database \<Rightarrow> 'a) \<Rightarrow> database \<Rightarrow> 'a" where
  "pool f conn = f conn"

definition adapter_setup :: "database \<Rightarrow> sql_error + database" where
  "adapter_setup db = pool (\<lambda>conn. execute create_tasks conn) db"

text \<open>Calling \<open>setup()\<close> \<open>n\<close> times in a row; an error of a call ends the sequence.\<close>

fun setup_times :: "nat \<Rightarrow> database \<Rightarrow> sql_error + database" where
  "setup_times 0 db = Inr db"
| "setup_times (Suc n) db =
     (case adapter_setup db of Inl e \<Rightarrow> Inl e | Inr db' \<Rightarrow> setup_times n db')"

subsection \<open>What a column holds\<close>

text \<open>
  The domain of stored values of each column type: \<open>BIGINT\<close> and \<open>INT\<close> are signed 64-bit
  and 32-bit integers, \<open>VARCHAR(n)\<close> holds at most \<open>n\<close> characters, an \<open>ENUM\<close> one of its
  listed values, \<open>TEXT\<close> at most 65535 bytes (of single-byte characters here). \<open>NULL\<close> is
  held by a column that is neither \<open>NOT NULL\<close> nor the primary key.
\<close>

fun holds :: "coltype \<Rightarrow> sqlval \<Rightarrow> bool" where
  "holds BIGINT (SInt i) = (- (2 ^ 63) \<le> i \<and> i < 2 ^ 63)"
| "holds INTEGER (SInt i) = (- (2 ^ 31) \<le> i \<and> i < 2 ^ 31)"
| "holds (VARCHAR n) (SStr s) = (length s \<le> n)"
| "holds (ENUM vs) (SStr s) = (s \<in> set vs)"
| "holds TEXT (SStr s) = (length s \<le> 65535)"
| "holds _ _ = False"

definition nullable :: "column \<Rightarrow> bool" where
  "nullable c = (\<not> has_attr NOT_NULL c \<and> \<not> has_attr PRIMARY_KEY c)"

definition col_ok :: "column \<Rightarrow> sqlval \<Rightarrow> bool" where
  "col_ok c v = (if v = SNull then nullable c else holds (col_type c) v)"

text \<open>
  A stored row gives one value to each column of the table, in the order of the columns;
  \<open>first_reject\<close> is the error of the first column whose value is outside its domain.
\<close>

fun first_reject :: "column list \<Rightarrow> row \<Rightarrow> sql_error option" where
  "first_reject [] r = None"
| "first_reject (c # cs) r =
     (case map_of r (col_name c) of
        None \<Rightarrow> Some (ER_BAD_FIELD (col_name c))
      | Some v \<Rightarrow>
          if col_ok c v then first_reject cs r
          else Some (if v = SNull then ER_BAD_NULL (col_name c)
                     else ER_DATA_OUT_OF_DOMAIN (col_name c)))"

definition row_ok :: "table_def \<Rightarrow> row \<Rightarrow> bool" where
  "row_ok d r = (map fst r = map col_name (columns d) \<and> first_reject (columns d) r = None)"

subsection \<open>Inserting a row\<close>

text \<open>
  \<^verbatim>\<open>INSERT INTO t (c1, ..., ck) VALUES (v1, ..., vk)\<close>, with the listed columns and their
  values as an association list. A column that is not listed takes its \<open>DEFAULT\<close>, or
  \<open>NULL\<close> without one; the \<open>AUTO_INCREMENT\<close> column takes the table's counter when it is
  not listed or listed as \<open>NULL\<close> or \<open>0\<close>. The row is refused when a listed column does
  not exist or is listed twice, when a value is outside its column's domain (which includes
  a counter that has left the range of its column), or when the primary key is taken.
  A stored row moves the counter past its key. The result is the insert id (the value of
  the \<open>AUTO_INCREMENT\<close> column of the stored row) and the new database.
\<close>

fun default_value :: "col_attr list \<Rightarrow> sqlval" where
  "default_value [] = SNull"
| "default_value (DEFAULT v # as) = v"
| "default_value (a # as) = default_value as"

definition fill :: "table \<Rightarrow> row \<Rightarrow> column \<Rightarrow> sqlval" where
  "fill t given c =
     (case map_of given (col_name c) of
        Some v \<Rightarrow>
          if has_attr AUTO_INCREMENT c \<and> (v = SNull \<or> v = SInt 0) then SInt (auto_inc t) else v
      | None \<Rightarrow>
          if has_attr AUTO_INCREMENT c then SInt (auto_inc t) else default_value (col_attrs c))"

definition stored_row :: "table \<Rightarrow> row \<Rightarrow> row" where
  "stored_row t given = map (\<lambda>c. (col_name c, fill t given c)) (columns (tdef t))"

definition key_value :: "table_def \<Rightarrow> row \<Rightarrow> sqlval option list" where
  "key_value d r = map (\<lambda>c. map_of r (col_name c)) (filter (has_attr PRIMARY_KEY) (columns d))"

definition dup_key :: "table \<Rightarrow> row \<Rightarrow> bool" where
  "dup_key t r =
     (filter (has_attr PRIMARY_KEY) (columns (tdef t)) \<noteq> [] \<and>
      key_value (tdef t) r \<in> set (map (key_value (tdef t)) (trows t)))"

definition insert_id :: "table_def \<Rightarrow> row \<Rightarrow> int" where
  "insert_id d r =
     (case filter (has_attr AUTO_INCREMENT) (columns d) of
        [] \<Rightarrow> 0
      | c # _ \<Rightarrow> (case map_of r (col_name c) of Some (SInt i) \<Rightarrow> i | _ \<Rightarrow> 0))"

definition insert_row :: "string \<Rightarrow> row \<Rightarrow> database \<Rightarrow> sql_error + (int \<times> database)" where
  "insert_row n given db =
     (case db n of
        None \<Rightarrow> Inl ER_NO_SUCH_TABLE
      | Some t \<Rightarrow>
          (case find (\<lambda>k. k \<notin> set (map col_name (columns (tdef t)))) (map fst given) of
             Some k \<Rightarrow> Inl (ER_BAD_FIELD k)
           | None \<Rightarrow>
               if \<not> distinct (map fst given) then Inl ER_FIELD_SPECIFIED_TWICE
               else
                 let r = stored_row t given in
                 (case first_reject (columns (tdef t)) r of
                    Some e \<Rightarrow> Inl e
                  | None \<Rightarrow>
                      if dup_key t r then Inl ER_DUP_ENTRY
                      else
                        let i = insert_id (tdef t) r in
                        Inr (i, db(n \<mapsto> t\<lparr>trows := trows t @ [r],
                                             auto_inc := max (auto_inc t) (i + 1)\<rparr>)))))"

text \<open>
  Sample data: the columns an insert must list for a task (those that are \<open>NOT NULL\<close> and
  have no default), with a given status; and the database after \<open>setup()\<close> on an empty one.
\<close>

definition pending_row :: "string \<Rightarrow> row" where
  "pending_row s =
     [(''name'', SStr ''job''), (''type'', SStr ''async''), (''status'', SStr s),
      (''next_run_time'', SInt 0)]"

definition fresh_db :: database where
  "fresh_db = Map.empty(''tasks'' \<mapsto> new_table tasks_def)"

text \<open>
  Following the specification's words, not the source: the task states of the state
  machine of its section 3 (\<open>pending\<close>, \<open>running\<close>, \<open>completed\<close>, \<open>permanently_failed\<close>, and
  \<open>paused\<close>, which it names as not eligible for claim). The list is only compared with
  the \<open>ENUM\<close> of the source.
\<close>

definition spec_fsm_states :: "string list" where
  "spec_fsm_states = [''pending'', ''running'', ''completed'', ''permanently_failed'', ''paused'']"

section \<open>The task engine, from the specification\<close>

text \<open>
  The task manager itself (\<open>TaskManager\<close>, the base adapter with its queries, the worker
  and the retry policy) is not among the sources: \<^verbatim>\<open>src/test/async_test.js\<close> only drives it.
  The definitions of this section follow the specification sentence by sentence; each one
  says which part it stands for. Times are whole seconds since the epoch, as in the
  specification.
\<close>

text \<open>
  Modelled from the spec: the task type of section 3, \<open>type \<in> {async, cron}\<close>; no source
  file declares it.
\<close>

datatype task_type = Async | Cron

text \<open>
  Modelled from the spec: the states of the state machine of section 3 (initial
  \<open>pending\<close>; \<open>running\<close> after a claim; \<open>completed\<close> and \<open>permanently_failed\<close> terminal for
  async tasks; \<open>paused\<close> not eligible for claim). The engine's own declaration is missing.
\<close>

datatype task_status = Pending | Running | Completed | PermanentlyFailed | Paused

text \<open>
  Modelled from the spec: the task record of section 3, field by field. \<open>priority\<close> is a
  signed integer; counts and times are naturals; \<open>payload\<close>, \<open>result\<close> and \<open>error\<close> are the
  text blobs the store keeps. The record type of the engine is missing from the sources.
\<close>

record task =
  task_id :: nat
  name :: string
  ttype :: task_type
  status :: task_status
  priority :: int
  payload :: string
  cron_expr :: "string option"
  next_run_time :: nat
  last_active_time :: "nat option"
  timeout :: nat
  retry_count :: nat
  max_retries :: nat
  retry_interval :: nat
  created_at :: nat
  result :: "string option"
  error :: "string option"

text \<open>
  Modelled from the spec: the \<open>tasks\<close> table as the storage adapter of section 4.A sees it,
  the rows in insertion order and the id the store assigns next. The adapter's queries
  (\<^verbatim>\<open>./base\<close>) are missing.
\<close>

record store =
  tasks :: "task list"
  next_id :: nat

text \<open>
  Modelled from the spec: the options of \<open>async(name, payload, opts?)\<close> of section 4.H,
  \<open>{priority=0, delay=0, timeout=60, max_retries=3, retry_interval=0}\<close>; \<open>TaskManager.async\<close>
  is missing.
\<close>

record opts =
  opt_priority :: int
  opt_delay :: nat
  opt_timeout :: nat
  opt_max_retries :: nat
  opt_retry_interval :: nat

text \<open>Modelled from the spec: the defaults of the options of \<open>async\<close> (section 4.H).\<close>

definition default_opts :: opts where
  "default_opts = \<lparr> opt_priority = 0, opt_delay = 0, opt_timeout = 60, opt_max_retries = 3,
     opt_retry_interval = 0 \<rparr>"

text \<open>
  Modelled from the spec: \<open>insert(task) \<rightarrow> id\<close> of the storage adapter (section 4.A), which
  assigns the id and persists the row with \<open>status = pending\<close>; the adapter's insert is
  missing.
\<close>

definition insert_task :: "task \<Rightarrow> store \<Rightarrow> nat \<times> store" where
  "insert_task t s =
     (next_id s,
      s\<lparr> tasks := tasks s @ [t\<lparr> task_id := next_id s, status := Pending \<rparr>],
         next_id := Suc (next_id s) \<rparr>)"

text \<open>
  Modelled from the spec: the row \<open>async(name, payload, opts)\<close> builds (section 4.H): a
  pending async task with \<open>next_run_time = now + delay\<close>, no cron expression, no attempt
  made. The id is a placeholder until the store assigns one.
\<close>

definition async_task :: "nat \<Rightarrow> string \<Rightarrow> string \<Rightarrow> opts \<Rightarrow> task" where
  "async_task now nm p os =
     \<lparr> task_id = 0, name = nm, ttype = Async, status = Pending,
       priority = opt_priority os, payload = p, cron_expr = None,
       next_run_time = now + opt_delay os, last_active_time = None,
       timeout = opt_timeout os, retry_count = 0, max_retries = opt_max_retries os,
       retry_interval = opt_retry_interval os, created_at = now,
       result = None, error = None \<rparr>"

text \<open>
  Modelled from the spec: \<open>async(name, payload, opts?) \<rightarrow> id\<close> of section 4.H, called at
  time \<open>now\<close>; \<open>TaskManager.async\<close> is missing.
\<close>

definition async :: "nat \<Rightarrow> string \<Rightarrow> string \<Rightarrow> opts \<Rightarrow> store \<Rightarrow> nat \<times> store" where
  "async now nm p os s = insert_task (async_task now nm p os) s"

text \<open>
  Modelled from the spec: tasks submitted together, that is by consecutive calls of
  \<open>async\<close> within the same second, as the test scenarios 5 and 6 of section 8 do.
\<close>

fun async_batch :: "nat \<Rightarrow> (string \<times> string \<times> opts) list \<Rightarrow> store \<Rightarrow> nat list \<times> store" where
  "async_batch now [] s = ([], s)"
| "async_batch now ((nm, p, os) # rest) s =
     (case async now nm p os s of
        (i, s1) \<Rightarrow> (case async_batch now rest s1 of (ids, s2) \<Rightarrow> (i # ids, s2)))"

text \<open>
  Modelled from the spec: the task as stored by \<open>async\<close> once the store gave it the id
  \<open>i\<close> (sections 4.A and 4.H).
\<close>

definition submitted :: "nat \<Rightarrow> nat \<Rightarrow> string \<Rightarrow> string \<Rightarrow> opts \<Rightarrow> task" where
  "submitted i now nm p os = (async_task now nm p os)\<lparr> task_id := i, status := Pending \<rparr>"

text \<open>
  Modelled from the spec: a ready task (glossary): \<open>status = pending\<close> and
  \<open>next_run_time \<le> now\<close>.
\<close>

definition ready :: "nat \<Rightarrow> task \<Rightarrow> bool" where
  "ready now t = (status t = Pending \<and> next_run_time t \<le> now)"

text \<open>
  Modelled from the spec: the \<open>ORDER BY\<close> of the claim query (sections 4.A and 4.D),
  \<open>next_run_time ASC, priority DESC, id ASC\<close>, as a key compared lexicographically.
\<close>

definition claim_key :: "task \<Rightarrow> nat \<times> int \<times> nat" where
  "claim_key t = (next_run_time t, - priority t, task_id t)"

text \<open>
  Modelled from the spec: the selection of \<open>claimReady(now, limit)\<close> (section 4.A): up to
  \<open>limit\<close> rows matching \<open>status = 'pending' AND next_run_time \<le> now\<close>, in the order of
  the claim key. The claim query is missing from the sources.
\<close>

definition select_ready :: "nat \<Rightarrow> nat \<Rightarrow> store \<Rightarrow> task list" where
  "select_ready now limit s = take limit (sort_key claim_key (filter (ready now) (tasks s)))"

text \<open>
  Modelled from the spec: the marking of a claimed row (section 4.A): \<open>status = 'running'\<close>,
  \<open>last_active_time = now\<close>, \<open>retry_count = retry_count + 1\<close>.
\<close>

definition mark_claimed :: "nat \<Rightarrow> task \<Rightarrow> task" where
  "mark_claimed now t =
     t\<lparr> status := Running, last_active_time := Some now, retry_count := Suc (retry_count t) \<rparr>"

text \<open>
  Modelled from the spec: \<open>claimReady(now, limit) \<rightarrow> [Task]\<close> (section 4.A), selection and
  marking in one transaction: the claimed tasks in claim order, and the store in which the
  rows with their ids are marked. The scheduler dispatches the claimed tasks in this order
  (section 4.D, step 3).
\<close>

definition claimReady :: "nat \<Rightarrow> nat \<Rightarrow> store \<Rightarrow> task list \<times> store" where
  "claimReady now limit s =
     (let sel = select_ready now limit s in
      (map (mark_claimed now) sel,
       s\<lparr> tasks := map (\<lambda>t. if task_id t \<in> set (map task_id sel) then mark_claimed now t else t)
                       (tasks s) \<rparr>))"

text \<open>
  Modelled from the spec: a handler (section 4.C and the handler contract of section 6)
  receives the task context and returns a success value (\<open>Inr\<close>) or raises a failure
  carrying an error message (\<open>Inl\<close>); a timeout is such a failure (section 7). The handler
  registry maps task names to handlers.
\<close>

type_synonym handler = "task \<Rightarrow> string + string"

type_synonym registry = "string \<rightharpoonup> handler"

text \<open>
  Modelled from the spec: \<open>use(name, handler)\<close> of section 4.C; the last registration wins.
\<close>

definition use_handler :: "string \<Rightarrow> handler \<Rightarrow> registry \<Rightarrow> registry" where
  "use_handler nm h reg = reg(nm \<mapsto> h)"

text \<open>
  Modelled from the spec: \<open>backoff(n, base)\<close> of section 4.F returns \<open>base\<close> if
  \<open>base > 0\<close>, otherwise an implementation-defined function of \<open>n\<close>, which is the
  parameter \<open>esc\<close>.
\<close>

definition backoff :: "(nat \<Rightarrow> nat) \<Rightarrow> nat \<Rightarrow> nat \<Rightarrow> nat" where
  "backoff esc n base = (if 0 < base then base else esc n)"

text \<open>Modelled from the spec: \<open>complete(id, result)\<close> of section 4.A, on the row itself.\<close>

definition complete :: "string \<Rightarrow> task \<Rightarrow> task" where
  "complete r t = t\<lparr> status := Completed, result := Some r \<rparr>"

text \<open>
  Modelled from the spec: \<open>fail(id, error, nextStatus, nextRunTime)\<close> of section 4.A, on the
  row itself.
\<close>

definition fail_task :: "string \<Rightarrow> task_status \<Rightarrow> nat \<Rightarrow> task \<Rightarrow> task" where
  "fail_task e next_status next_time t =
     t\<lparr> status := next_status, next_run_time := next_time, error := Some e \<rparr>"

text \<open>
  Modelled from the spec: the retry policy of section 4.F for a failed task, whose
  \<open>retry_count\<close> was incremented by the claim: \<open>retry_count > max_retries\<close> gives
  \<open>permanently_failed\<close>, otherwise the task goes back to \<open>pending\<close> with
  \<open>next_run_time = now + backoff(retry_count, retry_interval)\<close>; the error is persisted in
  both cases.
\<close>

definition retry_policy :: "(nat \<Rightarrow> nat) \<Rightarrow> nat \<Rightarrow> string \<Rightarrow> task \<Rightarrow> task" where
  "retry_policy esc now e t =
     (if max_retries t < retry_count t then fail_task e PermanentlyFailed (next_run_time t) t
      else fail_task e Pending (now + backoff esc (retry_count t) (retry_interval t)) t)"

text \<open>
  Modelled from the spec: one worker run on a claimed async task (section 4.E): a missing
  handler makes the task \<open>permanently_failed\<close> at once with the error
  \<open>no handler for <name>\<close>; success completes it; a failure goes to the retry policy. The
  second component counts the invocations of the handler. The rescheduling of cron tasks
  is not part of this model.
\<close>

definition run_worker :: "registry \<Rightarrow> (nat \<Rightarrow> nat) \<Rightarrow> nat \<Rightarrow> task \<Rightarrow> task \<times> nat" where
  "run_worker reg esc now t =
     (case reg (name t) of
        None \<Rightarrow> (fail_task (''no handler for '' @ name t) PermanentlyFailed (next_run_time t) t, 0)
      | Some h \<Rightarrow>
          (case h t of
             Inr r \<Rightarrow> (complete r t, 1)
           | Inl e \<Rightarrow> (retry_policy esc now e t, 1)))"

text \<open>A retry leaves the counters of the claimed task as they are.\<close>

lemma run_worker_pending:
  assumes "status (fst (run_worker reg esc now t)) = Pending"
  shows "retry_count t \<le> max_retries t \<and>
         retry_count (fst (run_worker reg esc now t)) = retry_count t \<and>
         max_retries (fst (run_worker reg esc now t)) = max_retries t"
  using assms
  by (auto simp: run_worker_def retry_policy_def fail_task_def complete_def
      split: option.splits sum.splits if_splits)

text \<open>
  Modelled from the spec: the life of one task under the scheduler and the worker
  (sections 4.D to 4.F), from time \<open>now\<close> until it rests: a task that is not pending is
  never claimed; a pending task is claimed at the first instant at which it is ready, run
  by the worker, and followed further while the retry policy sends it back to
  \<open>pending\<close>. The result is the task at rest and the number of invocations of its handler.
  The running time of the handler is not modelled: an attempt ends at the instant of its
  claim. The recursion ends because every claim increments \<open>retry_count\<close> and the policy
  only retries while \<open>retry_count \<le> max_retries\<close>.
\<close>

function run_to_rest :: "registry \<Rightarrow> (nat \<Rightarrow> nat) \<Rightarrow> nat \<Rightarrow> task \<Rightarrow> task \<times> nat" where
  "run_to_rest reg esc now t =
     (if status t \<noteq> Pending then (t, 0)
      else
        let at = max now (next_run_time t);
            r = run_worker reg esc at (mark_claimed at t)
        in if status (fst r) = Pending
           then (case run_to_rest reg esc at (fst r) of (tf, m) \<Rightarrow> (tf, snd r + m))
           else r)"
  by pat_completeness auto
termination
proof (relation "measure (\<lambda>(reg, esc, now, t). Suc (max_retries t) - retry_count t)")
  show "wf (measure (\<lambda>(reg, esc, now, t). Suc (max_retries t) - retry_count t))"
    by simp
next
  fix reg :: registry and esc :: "nat \<Rightarrow> nat" and now :: nat and t :: task and at r
  assume "\<not> status t \<noteq> Pending" and at: "at = max now (next_run_time t)"
    and r: "r = run_worker reg esc at (mark_claimed at t)"
    and p: "status (fst r) = Pending"
  from run_worker_pending [OF p [unfolded r]]
  show "((reg, esc, at, fst r), (reg, esc, now, t))
          \<in> measure (\<lambda>(reg, esc, now, t). Suc (max_retries t) - retry_count t)"
    unfolding r by (auto simp: mark_claimed_def)
qed

declare run_to_rest.simps [simp del]

text \<open>
  Modelled from the spec: the batch of scenario 6 of section 8, submitted as
  \<open>(priority=1, delay=2)\<close>, \<open>(priority=2, delay=1)\<close>, \<open>(priority=1, delay=1)\<close>.
\<close>

definition delay_batch :: "string \<Rightarrow> string \<Rightarrow> string \<Rightarrow> string \<Rightarrow> (string \<times> string \<times> opts) list" where
  "delay_batch nm p1 p2 p3 =
     [(nm, p1, default_opts\<lparr> opt_priority := 1, opt_delay := 2 \<rparr>),
      (nm, p2, default_opts\<lparr> opt_priority := 2, opt_delay := 1 \<rparr>),
      (nm, p3, default_opts\<lparr> opt_priority := 1, opt_delay := 1 \<rparr>)]"

text \<open>
  Modelled from the spec: the batch of scenario 5 of section 8, priorities 0, 10 and 5 at
  the same \<open>next_run_time\<close>; the test submits them with \<open>max_retries = 0\<close>.
\<close>

definition priority_batch :: "string \<Rightarrow> string \<Rightarrow> string \<Rightarrow> string \<Rightarrow> (string \<times> string \<times> opts) list" where
  "priority_batch nm p1 p2 p3 =
     [(nm, p1, default_opts\<lparr> opt_priority := 0, opt_max_retries := 0 \<rparr>),
      (nm, p2, default_opts\<lparr> opt_priority := 10, opt_max_retries := 0 \<rparr>),
      (nm, p3, default_opts\<lparr> opt_priority := 5, opt_max_retries := 0 \<rparr>)]"

text \<open>Modelled from the spec: a store after \<open>clearTasks()\<close> (section 4.A), without tasks.\<close>

definition empty_store :: store where
  "empty_store = \<lparr> tasks = [], next_id = 1 \<rparr>"

text \<open>
  Modelled from the spec: the handler of scenario 2 of section 8, which always throws
  \<open>Task failed\<close>.
\<close>

definition always_fails :: handler where
  "always_fails = (\<lambda>t. Inl ''Task failed'')"

text \<open>
  Modelled from the spec: the backoff that section 4.F gives as an example for
  \<open>retry_interval = 0\<close>, \<open>2^(n-1)\<close> seconds capped at 60.
\<close>

definition doubling :: "nat \<Rightarrow> nat" where
  "doubling n = min (2 ^ (n - 1)) 60"

section \<open>Properties of the schema bootstrap\<close>

lemma tasks_def_ok: "def_ok tasks_def"
  by (simp add: def_ok_def tasks_def_def has_attr_def integer_type_def)

lemma adapter_setup_cases:
  "adapter_setup db =
     Inr (case db ''tasks'' of Some t \<Rightarrow> db | None \<Rightarrow> db(''tasks'' \<mapsto> new_table tasks_def))"
  by (simp add: adapter_setup_def pool_def create_tasks_def tasks_def_ok split: option.split)

lemma adapter_setup_again:
  "adapter_setup db = Inr db' \<Longrightarrow> adapter_setup db' = Inr db'"
  by (auto simp: adapter_setup_cases split: option.splits)

lemma setup_times_fixed:
  "adapter_setup db' = Inr db' \<Longrightarrow> setup_times n db' = Inr db'"
  by (induction n) simp_all

lemma fresh_keys:
  assumes s: "adapter_setup db = Inr db'"
  shows "db ''tasks'' = None \<longrightarrow>
      (\<exists>t. db' ''tasks'' = Some t \<and> tdef t = tasks_def \<and> trows t = [] \<and>
           map key_cols (keys (tdef t)) =
             [[''status'', ''priority'', ''next_run_time''], [''name'']])"
proof
  assume n: "db ''tasks'' = None"
  have k: "map key_cols (keys tasks_def) = [[''status'', ''priority'', ''next_run_time''], [''name'']]"
    by (simp add: tasks_def_def)
  from s n have "db' = db(''tasks'' \<mapsto> new_table tasks_def)"
    by (simp add: adapter_setup_cases)
  then show "\<exists>t. db' ''tasks'' = Some t \<and> tdef t = tasks_def \<and> trows t = [] \<and>
           map key_cols (keys (tdef t)) =
             [[''status'', ''priority'', ''next_run_time''], [''name'']]"
    using k by (simp add: new_table_def)
qed

text \<open>
  C6. \<open>setup()\<close> never fails, calling it any positive number of times leaves the database
  that one call leaves (so a second call on the existing schema succeeds and changes
  nothing), no other table is touched, and where no table \<open>tasks\<close> existed the call
  creates it, empty, with the definition of the source, whose keys are exactly
  \<open>(status, priority, next_run_time)\<close> and \<open>(name)\<close>.
\<close>

theorem setup_idempotent:
  "\<exists>db'. adapter_setup db = Inr db' \<and>
         setup_times (Suc n) db = Inr db' \<and>
         adapter_setup db' = Inr db' \<and>
         (\<forall>other. other \<noteq> ''tasks'' \<longrightarrow> db' other = db other) \<and>
         (db ''tasks'' = None \<longrightarrow>
            (\<exists>t. db' ''tasks'' = Some t \<and> tdef t = tasks_def \<and> trows t = [] \<and>
                 map key_cols (keys (tdef t)) =
                   [[''status'', ''priority'', ''next_run_time''], [''name'']]))"
proof -
  obtain db' where s: "adapter_setup db = Inr db'"
    by (simp add: adapter_setup_cases)
  have again: "adapter_setup db' = Inr db'"
    using s by (rule adapter_setup_again)
  have many: "setup_times (Suc n) db = Inr db'"
    using s setup_times_fixed [OF again] by simp
  have others: "\<forall>other. other \<noteq> ''tasks'' \<longrightarrow> db' other = db other"
    using s by (auto simp: adapter_setup_cases split: option.splits)
  note fresh = fresh_keys [OF s]
  show ?thesis
    by (intro exI [of _ db'] conjI) (fact s again many others fresh)+
qed

theorem setup_idempotent_witness:
  "\<exists>db'. adapter_setup Map.empty = Inr db' \<and>
         setup_times 3 Map.empty = Inr db' \<and>
         adapter_setup db' = Inr db' \<and>
         (\<exists>t. db' ''tasks'' = Some t \<and> tdef t = tasks_def \<and> trows t = [] \<and>
              map key_cols (keys (tdef t)) =
                [[''status'', ''priority'', ''next_run_time''], [''name'']])"
proof -
  obtain db' where w: "adapter_setup Map.empty = Inr db'"
      "setup_times (Suc 2) Map.empty = Inr db'"
      "adapter_setup db' = Inr db'"
      "Map.empty ''tasks'' = (None :: table option) \<longrightarrow>
         (\<exists>t. db' ''tasks'' = Some t \<and> tdef t = tasks_def \<and> trows t = [] \<and>
              map key_cols (keys (tdef t)) =
                [[''status'', ''priority'', ''next_run_time''], [''name'']])"
    using setup_idempotent [of Map.empty 2] by (elim exE conjE) (rule that)
  have three: "(3::nat) = Suc 2" by simp
  from w(4) have k: "\<exists>t. db' ''tasks'' = Some t \<and> tdef t = tasks_def \<and> trows t = [] \<and>
              map key_cols (keys (tdef t)) =
                [[''status'', ''priority'', ''next_run_time''], [''name'']]"
    by simp
  show ?thesis
    unfolding three by (intro exI [of _ db'] conjI) (fact w k)+
qed

section \<open>Properties of the stored rows\<close>

lemma first_reject_None:
  "first_reject cs r = None \<Longrightarrow> c \<in> set cs \<Longrightarrow>
     \<exists>v. map_of r (col_name c) = Some v \<and> col_ok c v"
  by (induction cs) (auto split: option.splits if_splits)

lemma map_of_stored:
  "distinct (map col_name cs) \<Longrightarrow> c \<in> set cs \<Longrightarrow>
     map_of (map (\<lambda>c. (col_name c, f c)) cs) (col_name c) = Some (f c)"
  by (induction cs) (auto simp: rev_image_eqI)

lemma stored_row_names: "map fst (stored_row t given) = map col_name (columns (tdef t))"
  by (simp add: stored_row_def comp_def)

lemma insert_row_Inr:
  assumes "insert_row n given db = Inr (i, db')" and "db n = Some t"
  shows "first_reject (columns (tdef t)) (stored_row t given) = None"
    and "i = insert_id (tdef t) (stored_row t given)"
    and "db' = db(n \<mapsto> t\<lparr>trows := trows t @ [stored_row t given],
                           auto_inc := max (auto_inc t) (i + 1)\<rparr>)"
  using assms
  by (auto simp: insert_row_def Let_def split: option.splits if_splits)

lemma insert_row_rejects:
  assumes t: "db n = Some t"
    and c: "c \<in> set (columns (tdef t))"
    and d: "distinct (map col_name (columns (tdef t)))"
    and bad: "\<not> col_ok c (fill t given c)"
  shows "\<exists>e. insert_row n given db = Inl e"
proof (cases "insert_row n given db")
  case (Inl e)
  then show ?thesis by simp
next
  case (Inr p)
  obtain i db' where p: "p = (i, db')" by (cases p)
  from Inr p t have "first_reject (columns (tdef t)) (stored_row t given) = None"
    by (simp add: insert_row_Inr(1))
  from first_reject_None [OF this c]
  have "col_ok c (fill t given c)"
    using map_of_stored [OF d c, of "fill t given"] by (simp add: stored_row_def)
  with bad show ?thesis by simp
qed

lemma columns_distinct: "distinct (map col_name (columns tasks_def))"
  using tasks_def_ok by (simp add: def_ok_def)

lemma name_col_in: "Column ''name'' (VARCHAR 255) [NOT_NULL] \<in> set (columns tasks_def)"
  by (simp add: tasks_def_def)

lemma cron_col_in: "Column ''cron_expr'' (VARCHAR 100) [] \<in> set (columns tasks_def)"
  by (simp add: tasks_def_def)

lemma status_col_in: "Column ''status'' (ENUM status_values) [NOT_NULL] \<in> set (columns tasks_def)"
  by (simp add: tasks_def_def)

lemma col_ok_varchar:
  "col_ok (Column n (VARCHAR k) as) v \<Longrightarrow>
     (v = SNull \<and> NOT_NULL \<notin> set as \<and> PRIMARY_KEY \<notin> set as) \<or> (\<exists>s. v = SStr s \<and> length s \<le> k)"
  by (cases v) (auto simp: col_ok_def nullable_def has_attr_def)

lemma col_ok_enum:
  "col_ok (Column n (ENUM vs) as) v \<Longrightarrow>
     (v = SNull \<and> NOT_NULL \<notin> set as \<and> PRIMARY_KEY \<notin> set as) \<or> (\<exists>s. v = SStr s \<and> s \<in> set vs)"
  by (cases v) (auto simp: col_ok_def nullable_def has_attr_def)

lemma row_ok_name:
  assumes "row_ok tasks_def r"
  shows "\<exists>s. map_of r ''name'' = Some (SStr s) \<and> length s \<le> 255"
proof -
  from assms have "first_reject (columns tasks_def) r = None" by (simp add: row_ok_def)
  from first_reject_None [OF this name_col_in]
  obtain v where v: "map_of r ''name'' = Some v" "col_ok (Column ''name'' (VARCHAR 255) [NOT_NULL]) v"
    by auto
  from col_ok_varchar [OF v(2)] v(1) show ?thesis by auto
qed

lemma row_ok_cron:
  assumes "row_ok tasks_def r"
  shows "map_of r ''cron_expr'' = Some SNull \<or>
         (\<exists>e. map_of r ''cron_expr'' = Some (SStr e) \<and> length e \<le> 100)"
proof -
  from assms have "first_reject (columns tasks_def) r = None" by (simp add: row_ok_def)
  from first_reject_None [OF this cron_col_in]
  obtain v where v: "map_of r ''cron_expr'' = Some v" "col_ok (Column ''cron_expr'' (VARCHAR 100) []) v"
    by auto
  from col_ok_varchar [OF v(2)] v(1) show ?thesis by auto
qed

lemma row_ok_status:
  assumes "row_ok tasks_def r"
  shows "\<exists>s. map_of r ''status'' = Some (SStr s) \<and> s \<in> set status_values"
proof -
  from assms have "first_reject (columns tasks_def) r = None" by (simp add: row_ok_def)
  from first_reject_None [OF this status_col_in]
  obtain v where v: "map_of r ''status'' = Some v" "col_ok (Column ''status'' (ENUM status_values) [NOT_NULL]) v"
    by auto
  from col_ok_enum [OF v(2)] v(1) show ?thesis by auto
qed

lemma insert_tasks_stores_ok:
  assumes "insert_row ''tasks'' given db = Inr (i, db')" and "db ''tasks'' = Some t"
    and "tdef t = tasks_def"
  shows "\<exists>t'. db' ''tasks'' = Some t' \<and> tdef t' = tasks_def \<and>
              trows t' = trows t @ [stored_row t given] \<and> row_ok tasks_def (stored_row t given)"
  using insert_row_Inr [OF assms(1,2)] assms(3)
  by (simp add: row_ok_def stored_row_names)

lemma long_name_rejected:
  assumes t: "db ''tasks'' = Some t" "tdef t = tasks_def"
    and g: "map_of given ''name'' = Some (SStr s)" and l: "255 < length s"
  shows "\<exists>e. insert_row ''tasks'' given db = Inl e"
proof -
  have c: "Column ''name'' (VARCHAR 255) [NOT_NULL] \<in> set (columns (tdef t))"
    using name_col_in t(2) by simp
  have d: "distinct (map col_name (columns (tdef t)))"
    using columns_distinct t(2) by simp
  have b: "\<not> col_ok (Column ''name'' (VARCHAR 255) [NOT_NULL]) (fill t given (Column ''name'' (VARCHAR 255) [NOT_NULL]))"
    using g l by (simp add: fill_def has_attr_def col_ok_def)
  show ?thesis
    by (rule insert_row_rejects [of db "''tasks''" t "Column ''name'' (VARCHAR 255) [NOT_NULL]" given, OF t(1) c d b])
qed

lemma long_cron_rejected:
  assumes t: "db ''tasks'' = Some t" "tdef t = tasks_def"
    and g: "map_of given ''cron_expr'' = Some (SStr s)" and l: "100 < length s"
  shows "\<exists>e. insert_row ''tasks'' given db = Inl e"
proof -
  have c: "Column ''cron_expr'' (VARCHAR 100) [] \<in> set (columns (tdef t))"
    using cron_col_in t(2) by simp
  have d: "distinct (map col_name (columns (tdef t)))"
    using columns_distinct t(2) by simp
  have b: "\<not> col_ok (Column ''cron_expr'' (VARCHAR 100) []) (fill t given (Column ''cron_expr'' (VARCHAR 100) []))"
    using g l by (simp add: fill_def has_attr_def col_ok_def)
  show ?thesis
    by (rule insert_row_rejects [of db "''tasks''" t "Column ''cron_expr'' (VARCHAR 100) []" given, OF t(1) c d b])
qed

lemma bad_status_rejected:
  assumes t: "db ''tasks'' = Some t" "tdef t = tasks_def"
    and g: "map_of given ''status'' = Some (SStr s)" and l: "s \<notin> set status_values"
  shows "\<exists>e. insert_row ''tasks'' given db = Inl e"
proof -
  have c: "Column ''status'' (ENUM status_values) [NOT_NULL] \<in> set (columns (tdef t))"
    using status_col_in t(2) by simp
  have d: "distinct (map col_name (columns (tdef t)))"
    using columns_distinct t(2) by simp
  have b: "\<not> col_ok (Column ''status'' (ENUM status_values) [NOT_NULL]) (fill t given (Column ''status'' (ENUM status_values) [NOT_NULL]))"
    using g l by (simp add: fill_def has_attr_def col_ok_def)
  show ?thesis
    by (rule insert_row_rejects [of db "''tasks''" t "Column ''status'' (ENUM status_values) [NOT_NULL]" given, OF t(1) c d b])
qed

lemma status_values_set:
  "set status_values =
     {''pending'', ''running'', ''completed'', ''failed'', ''timeout'',
      ''permanently_failed'', ''paused''}"
  by (simp add: status_values_def)

lemma stored_pending_row:
  "stored_row (new_table tasks_def) (pending_row s) =
    [(''id'', SInt 1), (''name'', SStr ''job''),
        (''type'', SStr ''async''), (''status'', SStr s),
        (''priority'', SInt 0), (''payload'', SNull),
        (''cron_expr'', SNull), (''next_run_time'', SInt 0),
        (''last_active_time'', SNull), (''timeout'', SInt 60),
        (''retry_count'', SInt 0), (''max_retries'', SInt 3),
        (''retry_interval'', SInt 0), (''created_at'', SNull),
        (''result'', SNull), (''error'', SNull)]"
  by (simp add: stored_row_def new_table_def tasks_def_def fill_def pending_row_def has_attr_def)

lemma pending_row_accepted:
  assumes "s \<in> set status_values"
  shows "first_reject (columns tasks_def) (stored_row (new_table tasks_def) (pending_row s)) = None"
  unfolding stored_pending_row using assms
  by (simp add: tasks_def_def col_ok_def nullable_def has_attr_def)

lemma insert_row_succeeds:
  assumes "db n = Some t"
    and "find (\<lambda>k. k \<notin> set (map col_name (columns (tdef t)))) (map fst given) = None"
    and "distinct (map fst given)"
    and "first_reject (columns (tdef t)) (stored_row t given) = None"
    and "\<not> dup_key t (stored_row t given)"
  shows "insert_row n given db =
           Inr (insert_id (tdef t) (stored_row t given),
                db(n \<mapsto> t\<lparr>trows := trows t @ [stored_row t given],
                    auto_inc := max (auto_inc t) (insert_id (tdef t) (stored_row t given) + 1)\<rparr>))"
  using assms by (simp add: insert_row_def Let_def)

lemma pending_row_inserted:
  assumes "s \<in> set status_values"
  shows "\<exists>db'. insert_row ''tasks'' (pending_row s) fresh_db = Inr (1, db')"
proof -
  have e: "tdef (new_table tasks_def) = tasks_def"
    by (simp add: new_table_def)
  have t: "fresh_db ''tasks'' = Some (new_table tasks_def)"
    by (simp add: fresh_db_def)
  have a: "find (\<lambda>k. k \<notin> set (map col_name (columns (tdef (new_table tasks_def)))))
             (map fst (pending_row s)) = None"
    unfolding e by (simp add: tasks_def_def pending_row_def)
  have b: "distinct (map fst (pending_row s))"
    by (simp add: pending_row_def)
  have c: "\<not> dup_key (new_table tasks_def) (stored_row (new_table tasks_def) (pending_row s))"
    by (simp add: dup_key_def new_table_def)
  have d: "insert_id (tdef (new_table tasks_def)) (stored_row (new_table tasks_def) (pending_row s)) = 1"
    unfolding stored_pending_row e by (simp add: insert_id_def tasks_def_def has_attr_def)
  have f: "first_reject (columns (tdef (new_table tasks_def)))
             (stored_row (new_table tasks_def) (pending_row s)) = None"
    unfolding e by (rule pending_row_accepted [OF assms])
  show ?thesis
    unfolding insert_row_succeeds [of fresh_db "''tasks''" "new_table tasks_def" "pending_row s", OF t a b f c] d
    by simp
qed

lemma pending_row_stored:
  assumes "s \<in> set status_values"
  shows "\<exists>db' t'. insert_row ''tasks'' (pending_row s) fresh_db = Inr (1, db') \<and>
           db' ''tasks'' = Some t' \<and> map (\<lambda>r. map_of r ''status'') (trows t') = [Some (SStr s)]"
proof -
  from pending_row_inserted [OF assms] obtain db' where
    i: "insert_row ''tasks'' (pending_row s) fresh_db = Inr (1, db')" by auto
  have t: "fresh_db ''tasks'' = Some (new_table tasks_def)"
    by (simp add: fresh_db_def)
  have "map_of (stored_row (new_table tasks_def) (pending_row s)) ''status'' = Some (SStr s)"
    unfolding stored_pending_row by simp
  then show ?thesis
    using i insert_row_Inr(3) [OF i t] by (simp add: new_table_def)
qed

text \<open>
  C8. In the table \<open>setup()\<close> creates, the status of every stored row is one of the seven
  values of the source's \<open>ENUM\<close>; each of the seven can be stored; an insert with any other
  status is refused; and \<open>failed\<close> and \<open>timeout\<close>, which the schema admits, are not among
  the task states of the specification's state machine.
\<close>

theorem status_domain:
  "(row_ok tasks_def r \<longrightarrow>
      (\<exists>s. map_of r ''status'' = Some (SStr s) \<and>
           s \<in> {''pending'', ''running'', ''completed'', ''failed'', ''timeout'',
                 ''permanently_failed'', ''paused''})) \<and>
   (s \<in> {''pending'', ''running'', ''completed'', ''failed'', ''timeout'',
          ''permanently_failed'', ''paused''} \<longrightarrow>
      (\<exists>db' t'. insert_row ''tasks'' (pending_row s) fresh_db = Inr (1, db') \<and>
           db' ''tasks'' = Some t' \<and>
           map (\<lambda>r. map_of r ''status'') (trows t') = [Some (SStr s)])) \<and>
   (db ''tasks'' = Some t \<and> tdef t = tasks_def \<and>
    map_of given ''status'' = Some (SStr s') \<and>
    s' \<notin> {''pending'', ''running'', ''completed'', ''failed'', ''timeout'',
           ''permanently_failed'', ''paused''} \<longrightarrow>
      (\<exists>e. insert_row ''tasks'' given db = Inl e)) \<and>
   ''failed'' \<notin> set spec_fsm_states \<and> ''timeout'' \<notin> set spec_fsm_states"
proof (intro conjI impI)
  assume "row_ok tasks_def r"
  from row_ok_status [OF this]
  show "\<exists>s. map_of r ''status'' = Some (SStr s) \<and>
           s \<in> {''pending'', ''running'', ''completed'', ''failed'', ''timeout'',
                 ''permanently_failed'', ''paused''}"
    unfolding status_values_set .
next
  assume "s \<in> {''pending'', ''running'', ''completed'', ''failed'', ''timeout'',
          ''permanently_failed'', ''paused''}"
  then have "s \<in> set status_values" unfolding status_values_set .
  then show "\<exists>db' t'. insert_row ''tasks'' (pending_row s) fresh_db = Inr (1, db') \<and>
           db' ''tasks'' = Some t' \<and>
           map (\<lambda>r. map_of r ''status'') (trows t') = [Some (SStr s)]"
    by (rule pending_row_stored)
next
  assume a: "db ''tasks'' = Some t \<and> tdef t = tasks_def \<and>
    map_of given ''status'' = Some (SStr s') \<and>
    s' \<notin> {''pending'', ''running'', ''completed'', ''failed'', ''timeout'',
           ''permanently_failed'', ''paused''}"
  then have "s' \<notin> set status_values" unfolding status_values_set by simp
  with a show "\<exists>e. insert_row ''tasks'' given db = Inl e"
    using bad_status_rejected [of db t given s'] by simp
next
  show "''failed'' \<notin> set spec_fsm_states" by (simp add: spec_fsm_states_def)
next
  show "''timeout'' \<notin> set spec_fsm_states" by (simp add: spec_fsm_states_def)
qed

theorem status_domain_witness:
  "row_ok tasks_def (stored_row (new_table tasks_def) (pending_row ''timeout'')) \<and>
   (\<exists>s. map_of (stored_row (new_table tasks_def) (pending_row ''timeout'')) ''status'' =
          Some (SStr s) \<and>
        s \<in> {''pending'', ''running'', ''completed'', ''failed'', ''timeout'',
              ''permanently_failed'', ''paused''}) \<and>
   (\<exists>db' t'. insert_row ''tasks'' (pending_row ''failed'') fresh_db = Inr (1, db') \<and>
        db' ''tasks'' = Some t' \<and>
        map (\<lambda>r. map_of r ''status'') (trows t') = [Some (SStr ''failed'')]) \<and>
   (\<exists>e. insert_row ''tasks'' (pending_row ''archived'') fresh_db = Inl e)"
proof -
  have h1: "row_ok tasks_def (stored_row (new_table tasks_def) (pending_row ''timeout''))"
    by (simp add: row_ok_def stored_row_names new_table_def
        pending_row_accepted [unfolded new_table_def] status_values_def)
  have h2: "''failed'' \<in> {''pending'', ''running'', ''completed'', ''failed'', ''timeout'',
              ''permanently_failed'', ''paused''}"
    by simp
  have h3: "fresh_db ''tasks'' = Some (new_table tasks_def) \<and>
      tdef (new_table tasks_def) = tasks_def \<and>
      map_of (pending_row ''archived'') ''status'' = Some (SStr ''archived'') \<and>
      ''archived'' \<notin> {''pending'', ''running'', ''completed'', ''failed'', ''timeout'',
              ''permanently_failed'', ''paused''}"
    by (simp add: fresh_db_def new_table_def pending_row_def)
  note th = status_domain [of "stored_row (new_table tasks_def) (pending_row ''timeout'')"
      "''failed''" fresh_db "new_table tasks_def" "pending_row ''archived''" "''archived''"]
  from th have c1: "row_ok tasks_def (stored_row (new_table tasks_def) (pending_row ''timeout'')) \<longrightarrow>
   (\<exists>s. map_of (stored_row (new_table tasks_def) (pending_row ''timeout'')) ''status'' =
          Some (SStr s) \<and>
        s \<in> {''pending'', ''running'', ''completed'', ''failed'', ''timeout'',
              ''permanently_failed'', ''paused''})"
    by (rule conjunct1)
  from th have c2: "''failed'' \<in> {''pending'', ''running'', ''completed'', ''failed'', ''timeout'',
              ''permanently_failed'', ''paused''} \<longrightarrow>
    (\<exists>db' t'. insert_row ''tasks'' (pending_row ''failed'') fresh_db = Inr (1, db') \<and>
        db' ''tasks'' = Some t' \<and>
        map (\<lambda>r. map_of r ''status'') (trows t') = [Some (SStr ''failed'')])"
    by (elim conjE)
  from th have c3: "fresh_db ''tasks'' = Some (new_table tasks_def) \<and>
      tdef (new_table tasks_def) = tasks_def \<and>
      map_of (pending_row ''archived'') ''status'' = Some (SStr ''archived'') \<and>
      ''archived'' \<notin> {''pending'', ''running'', ''completed'', ''failed'', ''timeout'',
              ''permanently_failed'', ''paused''} \<longrightarrow>
      (\<exists>e. insert_row ''tasks'' (pending_row ''archived'') fresh_db = Inl e)"
    by (elim conjE)
  show ?thesis
    by (intro conjI) (rule h1, rule mp [OF c1 h1], rule mp [OF c2 h2], rule mp [OF c3 h3])
qed

text \<open>
  C9. In every row the schema accepts \<open>name\<close> is a string of at most 255 characters (never
  \<open>NULL\<close>) and \<open>cron_expr\<close> is \<open>NULL\<close> or a string of at most 100 characters; every row an
  insert stores is such a row; and an insert whose name is longer than 255 characters, or
  whose cron expression is longer than 100, is refused, so it is not stored as given.
\<close>

theorem name_and_cron_expr_limits:
  "(row_ok tasks_def r \<longrightarrow>
      (\<exists>s. map_of r ''name'' = Some (SStr s) \<and> length s \<le> 255) \<and>
      (map_of r ''cron_expr'' = Some SNull \<or>
       (\<exists>e. map_of r ''cron_expr'' = Some (SStr e) \<and> length e \<le> 100))) \<and>
   (db ''tasks'' = Some t \<and> tdef t = tasks_def \<and>
    insert_row ''tasks'' given db = Inr (i, db') \<longrightarrow>
      (\<exists>t'. db' ''tasks'' = Some t' \<and> tdef t' = tasks_def \<and>
            trows t' = trows t @ [stored_row t given] \<and>
            row_ok tasks_def (stored_row t given))) \<and>
   (db ''tasks'' = Some t \<and> tdef t = tasks_def \<and>
    map_of given1 ''name'' = Some (SStr s1) \<and> 255 < length s1 \<longrightarrow>
      (\<exists>e. insert_row ''tasks'' given1 db = Inl e)) \<and>
   (db ''tasks'' = Some t \<and> tdef t = tasks_def \<and>
    map_of given2 ''cron_expr'' = Some (SStr s2) \<and> 100 < length s2 \<longrightarrow>
      (\<exists>e. insert_row ''tasks'' given2 db = Inl e))"
proof (intro conjI impI)
  assume r: "row_ok tasks_def r"
  show "\<exists>s. map_of r ''name'' = Some (SStr s) \<and> length s \<le> 255"
    using r by (rule row_ok_name)
  show "map_of r ''cron_expr'' = Some SNull \<or>
       (\<exists>e. map_of r ''cron_expr'' = Some (SStr e) \<and> length e \<le> 100)"
    using r by (rule row_ok_cron)
next
  assume "db ''tasks'' = Some t \<and> tdef t = tasks_def \<and>
    insert_row ''tasks'' given db = Inr (i, db')"
  then show "\<exists>t'. db' ''tasks'' = Some t' \<and> tdef t' = tasks_def \<and>
            trows t' = trows t @ [stored_row t given] \<and>
            row_ok tasks_def (stored_row t given)"
    using insert_tasks_stores_ok [of given db i db' t] by simp
next
  assume "db ''tasks'' = Some t \<and> tdef t = tasks_def \<and>
    map_of given1 ''name'' = Some (SStr s1) \<and> 255 < length s1"
  then show "\<exists>e. insert_row ''tasks'' given1 db = Inl e"
    using long_name_rejected [of db t given1 s1] by simp
next
  assume "db ''tasks'' = Some t \<and> tdef t = tasks_def \<and>
    map_of given2 ''cron_expr'' = Some (SStr s2) \<and> 100 < length s2"
  then show "\<exists>e. insert_row ''tasks'' given2 db = Inl e"
    using long_cron_rejected [of db t given2 s2] by simp
qed

theorem name_and_cron_expr_limits_witness:
  "row_ok tasks_def (stored_row (new_table tasks_def) (pending_row ''pending'')) \<and>
   (\<exists>s. map_of (stored_row (new_table tasks_def) (pending_row ''pending'')) ''name'' =
          Some (SStr s) \<and> length s \<le> 255) \<and>
   (\<exists>db'. insert_row ''tasks'' (pending_row ''pending'') fresh_db = Inr (1, db') \<and>
      (\<exists>t'. db' ''tasks'' = Some t' \<and> tdef t' = tasks_def \<and>
            trows t' = [stored_row (new_table tasks_def) (pending_row ''pending'')])) \<and>
   (\<exists>e. insert_row ''tasks''
          [(''name'', SStr (replicate 256 CHR ''a'')), (''type'', SStr ''async''),
           (''status'', SStr ''pending''), (''next_run_time'', SInt 0)]
          fresh_db = Inl e) \<and>
   (\<exists>e. insert_row ''tasks''
          ((''cron_expr'', SStr (replicate 101 CHR ''*'')) # pending_row ''pending'')
          fresh_db = Inl e)"
proof -
  let ?r = "stored_row (new_table tasks_def) (pending_row ''pending'')"
  let ?g1 = "[(''name'', SStr (replicate 256 CHR ''a'')), (''type'', SStr ''async''),
      (''status'', SStr ''pending''), (''next_run_time'', SInt 0)]"
  let ?g2 = "(''cron_expr'', SStr (replicate 101 CHR ''*'')) # pending_row ''pending''"
  have h1: "row_ok tasks_def ?r"
    by (simp add: row_ok_def stored_row_names new_table_def
        pending_row_accepted [unfolded new_table_def] status_values_def)
  have t: "fresh_db ''tasks'' = Some (new_table tasks_def)" "tdef (new_table tasks_def) = tasks_def"
    by (simp_all add: fresh_db_def new_table_def)
  obtain db' where i: "insert_row ''tasks'' (pending_row ''pending'') fresh_db = Inr (1, db')"
    using pending_row_inserted [of "''pending''"] by (auto simp: status_values_def)
  have h3: "map_of ?g1 ''name'' = Some (SStr (replicate 256 CHR ''a'')) \<and>
      255 < length (replicate 256 CHR ''a'')"
    by simp
  have h4: "map_of ?g2 ''cron_expr'' = Some (SStr (replicate 101 CHR ''*'')) \<and>
      100 < length (replicate 101 CHR ''*'')"
    by simp
  note th = name_and_cron_expr_limits [of ?r fresh_db "new_table tasks_def"
      "pending_row ''pending''" 1 db' ?g1 "replicate 256 CHR ''a''" ?g2
      "replicate 101 CHR ''*''"]
  have c1: "\<exists>s. map_of ?r ''name'' = Some (SStr s) \<and> length s \<le> 255"
    using th h1 by (elim conjE) (erule impE, assumption, elim conjE)
  have c2: "\<exists>t'. db' ''tasks'' = Some t' \<and> tdef t' = tasks_def \<and>
            trows t' = trows (new_table tasks_def) @ [?r] \<and> row_ok tasks_def ?r"
    using th t i by (elim conjE) (simp only: simp_thms)
  have c3: "\<exists>e. insert_row ''tasks'' ?g1 fresh_db = Inl e"
    using th t h3 by (elim conjE) (simp only: simp_thms)
  have c4: "\<exists>e. insert_row ''tasks'' ?g2 fresh_db = Inl e"
    using th t h4 by (elim conjE) (simp only: simp_thms)
  from c2 have c2': "\<exists>t'. db' ''tasks'' = Some t' \<and> tdef t' = tasks_def \<and> trows t' = [?r]"
    by (auto simp: new_table_def)
  from i c2' have c5: "\<exists>db'. insert_row ''tasks'' (pending_row ''pending'') fresh_db = Inr (1, db') \<and>
      (\<exists>t'. db' ''tasks'' = Some t' \<and> tdef t' = tasks_def \<and> trows t' = [?r])"
    by (intro exI [of _ db'] conjI)
  show ?thesis
    by (intro conjI) (rule h1, rule c1, rule c5, rule c3, rule c4)
qed

section \<open>Properties of the task engine\<close>

lemma split_at_two:
  assumes "i < j" and "j < length xs"
  shows "\<exists>us vs ws. xs = us @ xs ! i # vs @ xs ! j # ws"
proof -
  from assms have i: "i < length xs" by simp
  have a: "xs = take i xs @ xs ! i # drop (Suc i) xs"
    using i by (rule id_take_nth_drop)
  let ?r = "drop (Suc i) xs"
  let ?k = "j - Suc i"
  from assms have k: "?k < length ?r" by simp
  have b: "?r = take ?k ?r @ ?r ! ?k # drop (Suc ?k) ?r"
    using k by (rule id_take_nth_drop)
  have c: "?r ! ?k = xs ! j"
    using assms by simp
  have "xs = take i xs @ xs ! i # take ?k ?r @ xs ! j # drop (Suc ?k) ?r"
    using a b c by metis
  then show ?thesis by blast
qed

lemma smaller_key_first:
  fixes f :: "'a \<Rightarrow> 'k::linorder"
  assumes b: "b \<in> set (take n (sort_key f xs))"
    and a: "a \<in> set xs"
    and lt: "f a < f b"
  shows "\<exists>us vs ws. take n (sort_key f xs) = us @ a # vs @ b # ws"
proof -
  let ?S = "sort_key f xs"
  have srt: "sorted (map f ?S)" by (rule sorted_sort_key)
  from b obtain j where j: "j < length (take n ?S)" "take n ?S ! j = b"
    unfolding in_set_conv_nth by blast
  then have jn: "j < n" "j < length ?S" "?S ! j = b" by simp_all
  from a have "a \<in> set ?S" by simp
  then obtain i where i: "i < length ?S" "?S ! i = a"
    unfolding in_set_conv_nth by blast
  have "i < j"
  proof (rule ccontr)
    assume "\<not> i < j"
    then have "j \<le> i" by simp
    then have "map f ?S ! j \<le> map f ?S ! i"
      using srt i(1) by (simp add: sorted_iff_nth_mono del: length_sort)
    then have "f b \<le> f a"
      using i jn by simp
    with lt show False by simp
  qed
  then have ti: "take n ?S ! i = a"
    using jn(1) i(2) by simp
  from split_at_two [OF \<open>i < j\<close> j(1)] show ?thesis
    unfolding ti j(2) .
qed

lemma claim_key_less_time:
  "next_run_time a < next_run_time b \<Longrightarrow> claim_key a < claim_key b"
  by (simp add: claim_key_def)

lemma claim_key_less_priority:
  "next_run_time a = next_run_time b \<Longrightarrow> priority b < priority a \<Longrightarrow> claim_key a < claim_key b"
  by (simp add: claim_key_def)

lemma select_ready_subset:
  "b \<in> set (select_ready now limit s) \<Longrightarrow> b \<in> set (tasks s) \<and> ready now b"
  by (auto simp: select_ready_def dest: in_set_takeD)

lemma select_ready_sorted:
  "sorted (map claim_key (select_ready now limit s))"
  unfolding select_ready_def
  by (simp add: sorted_wrt_take take_map [symmetric] del: take_map)

lemma claimReady_fst:
  "fst (claimReady now limit s) = map (mark_claimed now) (select_ready now limit s)"
  by (simp add: claimReady_def Let_def)

lemma mark_claimed_fields:
  "next_run_time (mark_claimed now t) = next_run_time t"
  "priority (mark_claimed now t) = priority t"
  "task_id (mark_claimed now t) = task_id t"
  "status (mark_claimed now t) = Running"
  "retry_count (mark_claimed now t) = Suc (retry_count t)"
  by (simp_all add: mark_claimed_def)

lemma claimed_sorted_by_time:
  "sorted (map next_run_time (fst (claimReady now limit s)))"
proof -
  have "sorted_wrt (\<lambda>x y. claim_key x \<le> claim_key y) (select_ready now limit s)"
    using select_ready_sorted [of now limit s] by (simp add: sorted_map)
  then have "sorted_wrt (\<lambda>x y. next_run_time x \<le> next_run_time y) (select_ready now limit s)"
    by (rule sorted_wrt_mono_rel [rotated]) (auto simp: claim_key_def)
  then show ?thesis
    by (simp add: claimReady_fst sorted_map comp_def mark_claimed_fields)
qed

lemma submitted_fields:
  "task_id (submitted i now nm p os) = i"
  "status (submitted i now nm p os) = Pending"
  "next_run_time (submitted i now nm p os) = now + opt_delay os"
  "priority (submitted i now nm p os) = opt_priority os"
  "payload (submitted i now nm p os) = p"
  "retry_count (submitted i now nm p os) = 0"
  "max_retries (submitted i now nm p os) = opt_max_retries os"
  by (simp_all add: submitted_def async_task_def)

lemma async_submits:
  "async now nm p os s =
     (next_id s, s\<lparr> tasks := tasks s @ [submitted (next_id s) now nm p os],
                    next_id := Suc (next_id s) \<rparr>)"
  by (simp add: async_def insert_task_def submitted_def)

lemma batch_of_three:
  "async_batch now [(n1, p1, o1), (n2, p2, o2), (n3, p3, o3)] s =
     ([next_id s, Suc (next_id s), Suc (Suc (next_id s))],
      s\<lparr> tasks := tasks s @
             [submitted (next_id s) now n1 p1 o1,
              submitted (Suc (next_id s)) now n2 p2 o2,
              submitted (Suc (Suc (next_id s))) now n3 p3 o3],
         next_id := Suc (Suc (Suc (next_id s))) \<rparr>)"
  by (simp add: async_submits)

lemma mark_claimed_payload: "payload (mark_claimed now t) = payload t"
  by (simp add: mark_claimed_def)

lemma ready_submitted:
  "ready now (submitted i t0 nm p os) = (t0 + opt_delay os \<le> now)"
  by (simp add: ready_def submitted_fields)

lemma claim_key_submitted:
  "claim_key (submitted i t0 nm p os) = (t0 + opt_delay os, - opt_priority os, i)"
  by (simp add: claim_key_def submitted_fields)

lemma none_ready:
  "list_all (\<lambda>t. status t \<noteq> Pending) ts \<Longrightarrow> filter (ready now) ts = []"
  by (induction ts) (simp_all add: ready_def)

lemma none_ready_after_mark:
  "list_all (\<lambda>t. status t \<noteq> Pending) ts \<Longrightarrow>
     filter (ready now') (map (\<lambda>t. if c t then mark_claimed now t else t) ts) = []"
  by (induction ts) (simp_all add: ready_def mark_claimed_fields)

lemma select_three_by_delay:
  assumes old: "list_all (\<lambda>t. status t \<noteq> Pending) (tasks s0)"
    and now: "t0 + 2 \<le> now" and lim: "3 \<le> limit"
    and o: "opt_priority o1 = 1" "opt_delay o1 = 2" "opt_priority o2 = 2" "opt_delay o2 = 1"
      "opt_priority o3 = 1" "opt_delay o3 = 1"
  shows "select_ready now limit (snd (async_batch t0 [(n1, p1, o1), (n2, p2, o2), (n3, p3, o3)] s0)) =
     [submitted (Suc (next_id s0)) t0 n2 p2 o2,
      submitted (Suc (Suc (next_id s0))) t0 n3 p3 o3,
      submitted (next_id s0) t0 n1 p1 o1]"
  unfolding batch_of_three select_ready_def
  using now lim
  by (simp add: none_ready [OF old] ready_submitted claim_key_submitted o)

lemma select_three_by_priority:
  assumes old: "list_all (\<lambda>t. status t \<noteq> Pending) (tasks s0)"
    and now: "t0 + d \<le> now" and lim: "3 \<le> limit"
    and o: "opt_priority o1 = 0" "opt_delay o1 = d" "opt_priority o2 = 10" "opt_delay o2 = d"
      "opt_priority o3 = 5" "opt_delay o3 = d"
  shows "select_ready now limit (snd (async_batch t0 [(n1, p1, o1), (n2, p2, o2), (n3, p3, o3)] s0)) =
     [submitted (Suc (next_id s0)) t0 n2 p2 o2,
      submitted (Suc (Suc (next_id s0))) t0 n3 p3 o3,
      submitted (next_id s0) t0 n1 p1 o1]"
  unfolding batch_of_three select_ready_def
  using now lim
  by (simp add: none_ready [OF old] ready_submitted claim_key_submitted o)

lemma select_two_then_one:
  assumes old: "list_all (\<lambda>t. status t \<noteq> Pending) (tasks s0)"
    and now1: "now1 = t0 + 1" and lim1: "2 \<le> limit1"
    and now2: "t0 + 2 \<le> now2" and lim2: "1 \<le> limit2"
    and o: "opt_priority o1 = 1" "opt_delay o1 = 2" "opt_priority o2 = 2" "opt_delay o2 = 1"
      "opt_priority o3 = 1" "opt_delay o3 = 1"
  shows "select_ready now1 limit1 (snd (async_batch t0 [(n1, p1, o1), (n2, p2, o2), (n3, p3, o3)] s0)) =
     [submitted (Suc (next_id s0)) t0 n2 p2 o2,
      submitted (Suc (Suc (next_id s0))) t0 n3 p3 o3]"
   and "select_ready now2 limit2
      (snd (claimReady now1 limit1
         (snd (async_batch t0 [(n1, p1, o1), (n2, p2, o2), (n3, p3, o3)] s0)))) =
     [submitted (next_id s0) t0 n1 p1 o1]"
proof -
  let ?s = "snd (async_batch t0 [(n1, p1, o1), (n2, p2, o2), (n3, p3, o3)] s0)"
  show first: "select_ready now1 limit1 ?s =
     [submitted (Suc (next_id s0)) t0 n2 p2 o2,
      submitted (Suc (Suc (next_id s0))) t0 n3 p3 o3]"
    unfolding batch_of_three select_ready_def
    using now1 lim1
    by (simp add: none_ready [OF old] ready_submitted claim_key_submitted o)
  have tasks1: "tasks (snd (claimReady now1 limit1 ?s)) =
      map (\<lambda>t. if task_id t \<in> {Suc (next_id s0), Suc (Suc (next_id s0))}
                then mark_claimed now1 t else t) (tasks s0) @
      [submitted (next_id s0) t0 n1 p1 o1,
       mark_claimed now1 (submitted (Suc (next_id s0)) t0 n2 p2 o2),
       mark_claimed now1 (submitted (Suc (Suc (next_id s0))) t0 n3 p3 o3)]"
    unfolding claimReady_def Let_def first
    unfolding batch_of_three
    by (simp add: submitted_fields)
  show "select_ready now2 limit2 (snd (claimReady now1 limit1 ?s)) =
     [submitted (next_id s0) t0 n1 p1 o1]"
    unfolding select_ready_def tasks1
    using now2 lim2
    by (simp add: none_ready_after_mark [OF old] o ready_def mark_claimed_fields
        submitted_fields)
qed

lemma claimed_before:
  assumes a: "a \<in> set (tasks s)" "ready now a"
    and b: "b \<in> set (select_ready now limit s)"
    and lt: "claim_key a < claim_key b"
  shows "\<exists>us vs ws. fst (claimReady now limit s) = map (mark_claimed now) (us @ a # vs @ b # ws)"
proof -
  from a have "a \<in> set (filter (ready now) (tasks s))" by simp
  from smaller_key_first [OF b [unfolded select_ready_def] this lt]
  obtain us vs ws where "select_ready now limit s = us @ a # vs @ b # ws"
    unfolding select_ready_def by blast
  then have "fst (claimReady now limit s) = map (mark_claimed now) (us @ a # vs @ b # ws)"
    by (simp only: claimReady_fst)
  then show ?thesis by blast
qed

lemma delay_batch_ids:
  "fst (async_batch t0 (delay_batch nm p1 p2 p3) s0) =
     [next_id s0, Suc (next_id s0), Suc (Suc (next_id s0))]"
  unfolding delay_batch_def batch_of_three by simp

lemma priority_batch_ids:
  "fst (async_batch t0 (priority_batch nm p1 p2 p3) s0) =
     [next_id s0, Suc (next_id s0), Suc (Suc (next_id s0))]"
  unfolding priority_batch_def batch_of_three by simp

lemma delay_batch_one_tick:
  assumes "list_all (\<lambda>t. status t \<noteq> Pending) (tasks s0)" "t0 + 2 \<le> now" "3 \<le> limit"
  shows "map task_id (fst (claimReady now limit (snd (async_batch t0 (delay_batch nm p1 p2 p3) s0)))) =
           [Suc (next_id s0), Suc (Suc (next_id s0)), next_id s0]"
    and "map payload (fst (claimReady now limit (snd (async_batch t0 (delay_batch nm p1 p2 p3) s0)))) =
           [p2, p3, p1]"
proof -
  have sel: "select_ready now limit (snd (async_batch t0
        [(nm, p1, default_opts\<lparr> opt_priority := 1, opt_delay := 2 \<rparr>), (nm, p2, default_opts\<lparr> opt_priority := 2, opt_delay := 1 \<rparr>), (nm, p3, default_opts\<lparr> opt_priority := 1, opt_delay := 1 \<rparr>)] s0)) =
     [submitted (Suc (next_id s0)) t0 nm p2 (default_opts\<lparr> opt_priority := 2, opt_delay := 1 \<rparr>),
      submitted (Suc (Suc (next_id s0))) t0 nm p3 (default_opts\<lparr> opt_priority := 1, opt_delay := 1 \<rparr>),
      submitted (next_id s0) t0 nm p1 (default_opts\<lparr> opt_priority := 1, opt_delay := 2 \<rparr>)]"
    by (rule select_three_by_delay [OF assms]) (simp_all add: default_opts_def)
  show "map task_id (fst (claimReady now limit (snd (async_batch t0 (delay_batch nm p1 p2 p3) s0)))) =
           [Suc (next_id s0), Suc (Suc (next_id s0)), next_id s0]"
    unfolding claimReady_fst delay_batch_def sel
    by (simp add: mark_claimed_fields submitted_fields)
  show "map payload (fst (claimReady now limit (snd (async_batch t0 (delay_batch nm p1 p2 p3) s0)))) =
           [p2, p3, p1]"
    unfolding claimReady_fst delay_batch_def sel
    by (simp add: mark_claimed_payload submitted_fields)
qed

lemma delay_batch_two_ticks:
  assumes "list_all (\<lambda>t. status t \<noteq> Pending) (tasks s0)" "2 \<le> limit1" "t0 + 2 \<le> now2"
    "1 \<le> limit2"
  shows "map payload (fst (claimReady (t0 + 1) limit1
            (snd (async_batch t0 (delay_batch nm p1 p2 p3) s0)))) = [p2, p3]"
    and "map payload (fst (claimReady now2 limit2 (snd (claimReady (t0 + 1) limit1
            (snd (async_batch t0 (delay_batch nm p1 p2 p3) s0)))))) = [p1]"
proof -
  have sel1: "select_ready (t0 + 1) limit1 (snd (async_batch t0
        [(nm, p1, default_opts\<lparr> opt_priority := 1, opt_delay := 2 \<rparr>), (nm, p2, default_opts\<lparr> opt_priority := 2, opt_delay := 1 \<rparr>), (nm, p3, default_opts\<lparr> opt_priority := 1, opt_delay := 1 \<rparr>)] s0)) =
     [submitted (Suc (next_id s0)) t0 nm p2 (default_opts\<lparr> opt_priority := 2, opt_delay := 1 \<rparr>),
      submitted (Suc (Suc (next_id s0))) t0 nm p3 (default_opts\<lparr> opt_priority := 1, opt_delay := 1 \<rparr>)]"
    by (rule select_two_then_one(1) [OF assms(1) refl assms(2,3,4)])
      (simp_all add: default_opts_def)
  have sel2: "select_ready now2 limit2 (snd (claimReady (t0 + 1) limit1 (snd (async_batch t0
        [(nm, p1, default_opts\<lparr> opt_priority := 1, opt_delay := 2 \<rparr>), (nm, p2, default_opts\<lparr> opt_priority := 2, opt_delay := 1 \<rparr>), (nm, p3, default_opts\<lparr> opt_priority := 1, opt_delay := 1 \<rparr>)] s0)))) =
     [submitted (next_id s0) t0 nm p1 (default_opts\<lparr> opt_priority := 1, opt_delay := 2 \<rparr>)]"
    by (rule select_two_then_one(2) [OF assms(1) refl assms(2,3,4)])
      (simp_all add: default_opts_def)
  show "map payload (fst (claimReady (t0 + 1) limit1
            (snd (async_batch t0 (delay_batch nm p1 p2 p3) s0)))) = [p2, p3]"
    unfolding claimReady_fst delay_batch_def sel1
    by (simp add: mark_claimed_payload submitted_fields)
  show "map payload (fst (claimReady now2 limit2 (snd (claimReady (t0 + 1) limit1
            (snd (async_batch t0 (delay_batch nm p1 p2 p3) s0)))))) = [p1]"
    unfolding claimReady_fst [of now2] delay_batch_def sel2
    by (simp add: mark_claimed_payload submitted_fields)
qed

lemma priority_batch_one_tick:
  assumes "list_all (\<lambda>t. status t \<noteq> Pending) (tasks s0)" "t0 \<le> now" "3 \<le> limit"
  shows "map task_id (fst (claimReady now limit (snd (async_batch t0 (priority_batch nm p1 p2 p3) s0)))) =
           [Suc (next_id s0), Suc (Suc (next_id s0)), next_id s0]"
    and "map priority (fst (claimReady now limit (snd (async_batch t0 (priority_batch nm p1 p2 p3) s0)))) =
           [10, 5, 0]"
    and "map payload (fst (claimReady now limit (snd (async_batch t0 (priority_batch nm p1 p2 p3) s0)))) =
           [p2, p3, p1]"
proof -
  from assms(2) have now: "t0 + 0 \<le> now" by simp
  have sel: "select_ready now limit (snd (async_batch t0
        [(nm, p1, default_opts\<lparr> opt_priority := 0, opt_max_retries := 0 \<rparr>), (nm, p2, default_opts\<lparr> opt_priority := 10, opt_max_retries := 0 \<rparr>), (nm, p3, default_opts\<lparr> opt_priority := 5, opt_max_retries := 0 \<rparr>)] s0)) =
     [submitted (Suc (next_id s0)) t0 nm p2 (default_opts\<lparr> opt_priority := 10, opt_max_retries := 0 \<rparr>),
      submitted (Suc (Suc (next_id s0))) t0 nm p3 (default_opts\<lparr> opt_priority := 5, opt_max_retries := 0 \<rparr>),
      submitted (next_id s0) t0 nm p1 (default_opts\<lparr> opt_priority := 0, opt_max_retries := 0 \<rparr>)]"
    by (rule select_three_by_priority [OF assms(1) now assms(3)]) (simp_all add: default_opts_def)
  show "map task_id (fst (claimReady now limit (snd (async_batch t0 (priority_batch nm p1 p2 p3) s0)))) =
           [Suc (next_id s0), Suc (Suc (next_id s0)), next_id s0]"
    unfolding claimReady_fst priority_batch_def sel
    by (simp add: mark_claimed_fields submitted_fields)
  show "map priority (fst (claimReady now limit (snd (async_batch t0 (priority_batch nm p1 p2 p3) s0)))) =
           [10, 5, 0]"
    unfolding claimReady_fst priority_batch_def sel
    by (simp add: mark_claimed_fields submitted_fields default_opts_def)
  show "map payload (fst (claimReady now limit (snd (async_batch t0 (priority_batch nm p1 p2 p3) s0)))) =
           [p2, p3, p1]"
    unfolding claimReady_fst priority_batch_def sel
    by (simp add: mark_claimed_payload submitted_fields)
qed

text \<open>
  C1. At one poll tick, a ready task with a strictly smaller \<open>next_run_time\<close> than a
  claimed task is claimed too, and before it, whatever the priorities; the claimed tasks
  are in the order of their \<open>next_run_time\<close>. For the three tasks submitted together as
  \<open>(priority=1, delay=2)\<close>, \<open>(priority=2, delay=1)\<close>, \<open>(priority=1, delay=1)\<close> into a store
  with no other pending task: at a tick where all three are ready (and at least three
  slots are free) they are claimed, and so dispatched, in the order second, third, first,
  that is \<open>[2, 3, 1]\<close>; and when a tick comes one second after the submission and another
  once the first task is ready, the ticks claim \<open>[2, 3]\<close> and then \<open>[1]\<close>.
\<close>

theorem earlier_run_time_first:
  "(a \<in> set (tasks s) \<and> ready now a \<and> b \<in> set (select_ready now limit s) \<and>
    next_run_time a < next_run_time b \<longrightarrow>
      (\<exists>us vs ws. fst (claimReady now limit s) =
          map (mark_claimed now) (us @ a # vs @ b # ws))) \<and>
   sorted (map next_run_time (fst (claimReady now limit s))) \<and>
   (list_all (\<lambda>t. status t \<noteq> Pending) (tasks s0) \<and> t0 + 2 \<le> now1 \<and> 3 \<le> limit1 \<longrightarrow>
      fst (async_batch t0 (delay_batch nm p1 p2 p3) s0) =
        [next_id s0, Suc (next_id s0), Suc (Suc (next_id s0))] \<and>
      map task_id (fst (claimReady now1 limit1
          (snd (async_batch t0 (delay_batch nm p1 p2 p3) s0)))) =
        [Suc (next_id s0), Suc (Suc (next_id s0)), next_id s0] \<and>
      map payload (fst (claimReady now1 limit1
          (snd (async_batch t0 (delay_batch nm p1 p2 p3) s0)))) = [p2, p3, p1]) \<and>
   (list_all (\<lambda>t. status t \<noteq> Pending) (tasks s0) \<and> 2 \<le> limit2 \<and> t0 + 2 \<le> now3 \<and>
    1 \<le> limit3 \<longrightarrow>
      map payload (fst (claimReady (t0 + 1) limit2
          (snd (async_batch t0 (delay_batch nm p1 p2 p3) s0)))) = [p2, p3] \<and>
      map payload (fst (claimReady now3 limit3 (snd (claimReady (t0 + 1) limit2
          (snd (async_batch t0 (delay_batch nm p1 p2 p3) s0)))))) = [p1])"
proof (intro conjI impI)
  assume h: "a \<in> set (tasks s) \<and> ready now a \<and> b \<in> set (select_ready now limit s) \<and>
    next_run_time a < next_run_time b"
  then have "claim_key a < claim_key b" by (simp add: claim_key_less_time)
  with h show "\<exists>us vs ws. fst (claimReady now limit s) =
          map (mark_claimed now) (us @ a # vs @ b # ws)"
    using claimed_before [of a s now b limit] by simp
next
  show "sorted (map next_run_time (fst (claimReady now limit s)))"
    by (rule claimed_sorted_by_time)
next
  assume h: "list_all (\<lambda>t. status t \<noteq> Pending) (tasks s0) \<and> t0 + 2 \<le> now1 \<and> 3 \<le> limit1"
  show "fst (async_batch t0 (delay_batch nm p1 p2 p3) s0) =
        [next_id s0, Suc (next_id s0), Suc (Suc (next_id s0))]"
    by (rule delay_batch_ids)
  show "map task_id (fst (claimReady now1 limit1
          (snd (async_batch t0 (delay_batch nm p1 p2 p3) s0)))) =
        [Suc (next_id s0), Suc (Suc (next_id s0)), next_id s0]"
    using h by (simp add: delay_batch_one_tick(1))
  show "map payload (fst (claimReady now1 limit1
          (snd (async_batch t0 (delay_batch nm p1 p2 p3) s0)))) = [p2, p3, p1]"
    using h by (simp add: delay_batch_one_tick(2))
next
  assume h: "list_all (\<lambda>t. status t \<noteq> Pending) (tasks s0) \<and> 2 \<le> limit2 \<and> t0 + 2 \<le> now3 \<and>
    1 \<le> limit3"
  show "map payload (fst (claimReady (t0 + 1) limit2
          (snd (async_batch t0 (delay_batch nm p1 p2 p3) s0)))) = [p2, p3]"
    using h delay_batch_two_ticks(1) [of s0 limit2 t0 now3 limit3 nm p1 p2 p3] by simp
  show "map payload (fst (claimReady now3 limit3 (snd (claimReady (t0 + 1) limit2
          (snd (async_batch t0 (delay_batch nm p1 p2 p3) s0)))))) = [p1]"
    using h delay_batch_two_ticks(2) [of s0 limit2 t0 now3 limit3 nm p1 p2 p3] by simp
qed

theorem earlier_run_time_first_witness:
  "(\<exists>us vs ws.
      fst (claimReady 102 3 (snd (async_batch 100 (delay_batch ''test'' ''1'' ''2'' ''3'') empty_store))) =
        map (mark_claimed 102)
          (us @ submitted 3 100 ''test'' ''3'' (default_opts\<lparr> opt_priority := 1, opt_delay := 1 \<rparr>) #
           vs @ submitted 1 100 ''test'' ''1'' (default_opts\<lparr> opt_priority := 1, opt_delay := 2 \<rparr>) #
           ws)) \<and>
   map task_id (fst (claimReady 102 3
      (snd (async_batch 100 (delay_batch ''test'' ''1'' ''2'' ''3'') empty_store)))) = [2, 3, 1] \<and>
   map payload (fst (claimReady 102 3
      (snd (async_batch 100 (delay_batch ''test'' ''1'' ''2'' ''3'') empty_store)))) =
     [''2'', ''3'', ''1''] \<and>
   map payload (fst (claimReady 101 3
      (snd (async_batch 100 (delay_batch ''test'' ''1'' ''2'' ''3'') empty_store)))) =
     [''2'', ''3''] \<and>
   map payload (fst (claimReady 102 3 (snd (claimReady 101 3
      (snd (async_batch 100 (delay_batch ''test'' ''1'' ''2'' ''3'') empty_store)))))) = [''1'']"
proof -
  let ?S = "snd (async_batch 100 (delay_batch ''test'' ''1'' ''2'' ''3'') empty_store)"
  let ?A = "submitted 3 100 ''test'' ''3'' (default_opts\<lparr> opt_priority := 1, opt_delay := 1 \<rparr>)"
  let ?B = "submitted 1 100 ''test'' ''1'' (default_opts\<lparr> opt_priority := 1, opt_delay := 2 \<rparr>)"
  have old: "list_all (\<lambda>t. status t \<noteq> Pending) (tasks empty_store)"
    by (simp add: empty_store_def)
  have n: "next_id empty_store = 1"
    by (simp add: empty_store_def)
  have tasksS: "tasks ?S =
      [submitted 1 100 ''test'' ''1'' (default_opts\<lparr> opt_priority := 1, opt_delay := 2 \<rparr>),
       submitted 2 100 ''test'' ''2'' (default_opts\<lparr> opt_priority := 2, opt_delay := 1 \<rparr>),
       submitted 3 100 ''test'' ''3'' (default_opts\<lparr> opt_priority := 1, opt_delay := 1 \<rparr>)]"
    unfolding delay_batch_def batch_of_three by (simp add: empty_store_def numeral_3_eq_3 numeral_2_eq_2)
  have sel: "select_ready 102 3 ?S =
      [submitted 2 100 ''test'' ''2'' (default_opts\<lparr> opt_priority := 2, opt_delay := 1 \<rparr>),
       submitted 3 100 ''test'' ''3'' (default_opts\<lparr> opt_priority := 1, opt_delay := 1 \<rparr>),
       submitted 1 100 ''test'' ''1'' (default_opts\<lparr> opt_priority := 1, opt_delay := 2 \<rparr>)]"
    unfolding delay_batch_def
    using select_three_by_delay [OF old, of 100 102 3
        "default_opts\<lparr> opt_priority := 1, opt_delay := 2 \<rparr>"
        "default_opts\<lparr> opt_priority := 2, opt_delay := 1 \<rparr>"
        "default_opts\<lparr> opt_priority := 1, opt_delay := 1 \<rparr>"
        "''test''" "''1''" "''test''" "''2''" "''test''" "''3''"]
    by (simp add: default_opts_def n numeral_3_eq_3 numeral_2_eq_2)
  have h1: "?A \<in> set (tasks ?S) \<and> ready 102 ?A \<and> ?B \<in> set (select_ready 102 3 ?S) \<and>
      next_run_time ?A < next_run_time ?B"
    unfolding sel tasksS
    by (simp add: ready_submitted submitted_fields default_opts_def)
  have h2: "list_all (\<lambda>t. status t \<noteq> Pending) (tasks empty_store) \<and> (100::nat) + 2 \<le> 102 \<and>
      (3::nat) \<le> 3"
    using old by simp
  have h3: "list_all (\<lambda>t. status t \<noteq> Pending) (tasks empty_store) \<and> (2::nat) \<le> 3 \<and>
      (100::nat) + 2 \<le> 102 \<and> (1::nat) \<le> 3"
    using old by simp
  note th = earlier_run_time_first [where a = ?A and b = ?B and s = ?S and now = 102
      and limit = 3 and ?s0.0 = empty_store and ?t0.0 = 100 and ?now1.0 = 102 and ?limit1.0 = 3
      and nm = "''test''" and ?p1.0 = "''1''" and ?p2.0 = "''2''" and ?p3.0 = "''3''"
      and ?limit2.0 = 3 and ?now3.0 = 102 and ?limit3.0 = 3]
  have c1: "\<exists>us vs ws. fst (claimReady 102 3 ?S) = map (mark_claimed 102) (us @ ?A # vs @ ?B # ws)"
    using th [THEN conjunct1] h1 by (rule mp)
  have c2: "map task_id (fst (claimReady 102 3 ?S)) = [2, 3, 1] \<and>
      map payload (fst (claimReady 102 3 ?S)) = [''2'', ''3'', ''1'']"
    using th h2 by (simp add: n numeral_3_eq_3 numeral_2_eq_2)
  have c3: "map payload (fst (claimReady 101 3 ?S)) = [''2'', ''3''] \<and>
      map payload (fst (claimReady 102 3 (snd (claimReady 101 3 ?S)))) = [''1'']"
    using th h3 by simp
  from c1 c2 c3 show ?thesis by (intro conjI) (elim conjE, assumption)+
qed

text \<open>
  C2. At one poll tick, a ready task with the same \<open>next_run_time\<close> as a claimed task and
  a strictly higher priority is claimed too, and before it. Three tasks submitted together
  with priorities 0, 10 and 5 into a store with no other pending task are claimed, at a
  tick with at least three free slots, in the order 10, 5, 0.
\<close>

theorem higher_priority_first:
  "(a \<in> set (tasks s) \<and> ready now a \<and> b \<in> set (select_ready now limit s) \<and>
    next_run_time a = next_run_time b \<and> priority b < priority a \<longrightarrow>
      (\<exists>us vs ws. fst (claimReady now limit s) =
          map (mark_claimed now) (us @ a # vs @ b # ws))) \<and>
   (list_all (\<lambda>t. status t \<noteq> Pending) (tasks s0) \<and> t0 \<le> now1 \<and> 3 \<le> limit1 \<longrightarrow>
      fst (async_batch t0 (priority_batch nm p1 p2 p3) s0) =
        [next_id s0, Suc (next_id s0), Suc (Suc (next_id s0))] \<and>
      map task_id (fst (claimReady now1 limit1
          (snd (async_batch t0 (priority_batch nm p1 p2 p3) s0)))) =
        [Suc (next_id s0), Suc (Suc (next_id s0)), next_id s0] \<and>
      map priority (fst (claimReady now1 limit1
          (snd (async_batch t0 (priority_batch nm p1 p2 p3) s0)))) = [10, 5, 0])"
proof (intro conjI impI)
  assume h: "a \<in> set (tasks s) \<and> ready now a \<and> b \<in> set (select_ready now limit s) \<and>
    next_run_time a = next_run_time b \<and> priority b < priority a"
  then have "claim_key a < claim_key b" by (simp add: claim_key_less_priority)
  with h show "\<exists>us vs ws. fst (claimReady now limit s) =
          map (mark_claimed now) (us @ a # vs @ b # ws)"
    using claimed_before [of a s now b limit] by simp
next
  assume h: "list_all (\<lambda>t. status t \<noteq> Pending) (tasks s0) \<and> t0 \<le> now1 \<and> 3 \<le> limit1"
  show "fst (async_batch t0 (priority_batch nm p1 p2 p3) s0) =
        [next_id s0, Suc (next_id s0), Suc (Suc (next_id s0))]"
    by (rule priority_batch_ids)
  show "map task_id (fst (claimReady now1 limit1
          (snd (async_batch t0 (priority_batch nm p1 p2 p3) s0)))) =
        [Suc (next_id s0), Suc (Suc (next_id s0)), next_id s0]"
    using h by (simp add: priority_batch_one_tick(1))
  show "map priority (fst (claimReady now1 limit1
          (snd (async_batch t0 (priority_batch nm p1 p2 p3) s0)))) = [10, 5, 0]"
    using h by (simp add: priority_batch_one_tick(2))
qed

theorem higher_priority_first_witness:
  "(\<exists>us vs ws.
      fst (claimReady 100 3 (snd (async_batch 100 (priority_batch ''priority_task'' [] [] []) empty_store))) =
        map (mark_claimed 100)
          (us @ submitted 2 100 ''priority_task'' []
                  (default_opts\<lparr> opt_priority := 10, opt_max_retries := 0 \<rparr>) #
           vs @ submitted 1 100 ''priority_task'' []
                  (default_opts\<lparr> opt_priority := 0, opt_max_retries := 0 \<rparr>) #
           ws)) \<and>
   map task_id (fst (claimReady 100 3
      (snd (async_batch 100 (priority_batch ''priority_task'' [] [] []) empty_store)))) = [2, 3, 1] \<and>
   map priority (fst (claimReady 100 3
      (snd (async_batch 100 (priority_batch ''priority_task'' [] [] []) empty_store)))) = [10, 5, 0]"
proof -
  let ?S = "snd (async_batch 100 (priority_batch ''priority_task'' [] [] []) empty_store)"
  let ?A = "submitted 2 100 ''priority_task'' []
      (default_opts\<lparr> opt_priority := 10, opt_max_retries := 0 \<rparr>)"
  let ?B = "submitted 1 100 ''priority_task'' []
      (default_opts\<lparr> opt_priority := 0, opt_max_retries := 0 \<rparr>)"
  have old: "list_all (\<lambda>t. status t \<noteq> Pending) (tasks empty_store)"
    by (simp add: empty_store_def)
  have n: "next_id empty_store = 1"
    by (simp add: empty_store_def)
  have tasksS: "tasks ?S =
      [submitted 1 100 ''priority_task'' [] (default_opts\<lparr> opt_priority := 0, opt_max_retries := 0 \<rparr>),
       submitted 2 100 ''priority_task'' [] (default_opts\<lparr> opt_priority := 10, opt_max_retries := 0 \<rparr>),
       submitted 3 100 ''priority_task'' [] (default_opts\<lparr> opt_priority := 5, opt_max_retries := 0 \<rparr>)]"
    unfolding priority_batch_def batch_of_three
    by (simp add: empty_store_def numeral_3_eq_3 numeral_2_eq_2)
  have sel: "select_ready 100 3 ?S =
      [submitted 2 100 ''priority_task'' [] (default_opts\<lparr> opt_priority := 10, opt_max_retries := 0 \<rparr>),
       submitted 3 100 ''priority_task'' [] (default_opts\<lparr> opt_priority := 5, opt_max_retries := 0 \<rparr>),
       submitted 1 100 ''priority_task'' [] (default_opts\<lparr> opt_priority := 0, opt_max_retries := 0 \<rparr>)]"
    unfolding priority_batch_def
    using select_three_by_priority [OF old, of 100 0 100 3
        "default_opts\<lparr> opt_priority := 0, opt_max_retries := 0 \<rparr>"
        "default_opts\<lparr> opt_priority := 10, opt_max_retries := 0 \<rparr>"
        "default_opts\<lparr> opt_priority := 5, opt_max_retries := 0 \<rparr>"
        "''priority_task''" "[]" "''priority_task''" "[]" "''priority_task''" "[]"]
    by (simp add: default_opts_def n numeral_3_eq_3 numeral_2_eq_2)
  have h1: "?A \<in> set (tasks ?S) \<and> ready 100 ?A \<and> ?B \<in> set (select_ready 100 3 ?S) \<and>
      next_run_time ?A = next_run_time ?B \<and> priority ?B < priority ?A"
    unfolding sel tasksS
    by (simp add: ready_submitted submitted_fields default_opts_def)
  have h2: "list_all (\<lambda>t. status t \<noteq> Pending) (tasks empty_store) \<and> (100::nat) \<le> 100 \<and>
      (3::nat) \<le> 3"
    using old by simp
  note th = higher_priority_first [where a = ?A and b = ?B and s = ?S and now = 100
      and limit = 3 and ?s0.0 = empty_store and ?t0.0 = 100 and ?now1.0 = 100 and ?limit1.0 = 3
      and nm = "''priority_task''" and ?p1.0 = "[]" and ?p2.0 = "[]" and ?p3.0 = "[]"]
  have c1: "\<exists>us vs ws. fst (claimReady 100 3 ?S) = map (mark_claimed 100) (us @ ?A # vs @ ?B # ws)"
    using th [THEN conjunct1] h1 by (rule mp)
  have c2: "map task_id (fst (claimReady 100 3 ?S)) = [2, 3, 1] \<and>
      map priority (fst (claimReady 100 3 ?S)) = [10, 5, 0]"
    using th h2 by (simp add: n numeral_3_eq_3 numeral_2_eq_2)
  from c1 c2 show ?thesis by (intro conjI) (elim conjE, assumption)+
qed

lemma run_to_rest_unfold:
  "run_to_rest reg esc now t =
     (if status t \<noteq> Pending then (t, 0)
      else
        let at = max now (next_run_time t);
            r = run_worker reg esc at (mark_claimed at t)
        in if status (fst r) = Pending
           then (case run_to_rest reg esc at (fst r) of (tf, m) \<Rightarrow> (tf, snd r + m))
           else r)"
  by (rule run_to_rest.simps)

lemma failing_attempt:
  assumes "reg (name t) = Some h" and "h (mark_claimed at t) = Inl msg"
  shows "run_worker reg esc at (mark_claimed at t) =
           (retry_policy esc at msg (mark_claimed at t), 1)"
  using assms by (simp add: run_worker_def mark_claimed_def)

lemma retry_policy_fields:
  "name (retry_policy esc now e t) = name t"
  "max_retries (retry_policy esc now e t) = max_retries t"
  "retry_count (retry_policy esc now e t) = retry_count t"
  "error (retry_policy esc now e t) = Some e"
  "status (retry_policy esc now e t) =
     (if max_retries t < retry_count t then PermanentlyFailed else Pending)"
  by (simp_all add: retry_policy_def fail_task_def)

lemma mark_claimed_more:
  "name (mark_claimed now t) = name t"
  "max_retries (mark_claimed now t) = max_retries t"
  by (simp_all add: mark_claimed_def)

lemma run_to_rest_failing:
  assumes "reg (name t) = Some h" and "h (mark_claimed (max now (next_run_time t)) t) = Inl msg"
    and "status t = Pending"
  shows "run_to_rest reg esc now t =
     (if Suc (retry_count t) \<le> max_retries t
      then (case run_to_rest reg esc (max now (next_run_time t))
                  (retry_policy esc (max now (next_run_time t)) msg
                     (mark_claimed (max now (next_run_time t)) t)) of
              (tf, m) \<Rightarrow> (tf, Suc m))
      else (retry_policy esc (max now (next_run_time t)) msg
              (mark_claimed (max now (next_run_time t)) t), 1))"
proof -
  let ?at = "max now (next_run_time t)"
  let ?c = "mark_claimed ?at t"
  let ?t' = "retry_policy esc ?at msg ?c"
  have w: "run_worker reg esc ?at ?c = (?t', 1)"
    using assms(1,2) by (rule failing_attempt)
  have st: "status ?t' = Pending \<longleftrightarrow> Suc (retry_count t) \<le> max_retries t"
    by (auto simp: retry_policy_fields mark_claimed_fields mark_claimed_more)
  have "run_to_rest reg esc now t =
      (if status ?t' = Pending
       then (case run_to_rest reg esc ?at ?t' of (tf, m) \<Rightarrow> (tf, 1 + m))
       else (?t', 1))"
    apply (subst run_to_rest_unfold)
    apply (simp only: assms(3) Let_def w fst_conv snd_conv simp_thms if_False)
    done
  then show ?thesis
    unfolding st by simp
qed

lemma exhaustion:
  "reg nm = Some h \<Longrightarrow> \<forall>ctx. h ctx = Inl msg \<Longrightarrow>
   name t = nm \<Longrightarrow> status t = Pending \<Longrightarrow> retry_count t \<le> max_retries t \<Longrightarrow>
     status (fst (run_to_rest reg esc now t)) = PermanentlyFailed \<and>
     error (fst (run_to_rest reg esc now t)) = Some msg \<and>
     retry_count (fst (run_to_rest reg esc now t)) = Suc (max_retries t) \<and>
     snd (run_to_rest reg esc now t) = Suc (max_retries t) - retry_count t"
proof (induction reg esc now t rule: run_to_rest.induct)
  case (1 reg esc now t)
  let ?at = "max now (next_run_time t)"
  let ?c = "mark_claimed ?at t"
  let ?t' = "retry_policy esc ?at msg ?c"
  have hn: "reg (name t) = Some h" using "1.prems"(1,3) by simp
  have hc: "h ?c = Inl msg" using "1.prems"(2) by simp
  have w: "run_worker reg esc ?at ?c = (?t', 1)"
    using hn hc by (rule failing_attempt)
  note step = run_to_rest_failing [where reg = reg and t = t and h = h and now = now
      and msg = msg and esc = esc, OF hn hc "1.prems"(4)]
  show ?case
  proof (cases "Suc (retry_count t) \<le> max_retries t")
    case False
    with "1.prems"(5) have eq: "retry_count t = max_retries t" by simp
    from False have r: "run_to_rest reg esc now t = (?t', 1)"
      by (simp only: step if_False)
    show ?thesis
      unfolding r using eq
      by (simp add: retry_policy_fields mark_claimed_fields mark_claimed_more)
  next
    case True
    then have again: "status ?t' = Pending"
      by (simp add: retry_policy_fields mark_claimed_fields mark_claimed_more)
    have ih: "status (fst (run_to_rest reg esc ?at ?t')) = PermanentlyFailed \<and>
      error (fst (run_to_rest reg esc ?at ?t')) = Some msg \<and>
      retry_count (fst (run_to_rest reg esc ?at ?t')) = Suc (max_retries ?t') \<and>
      snd (run_to_rest reg esc ?at ?t') = Suc (max_retries ?t') - retry_count ?t'"
    proof (rule "1.IH" [of ?at "run_worker reg esc ?at ?c", unfolded w fst_conv])
      show "\<not> status t \<noteq> Pending" using "1.prems"(4) by simp
      show "?at = max now (next_run_time t)" by simp
      show "(?t', 1) = (?t', 1)" by simp
      show "status ?t' = Pending" by (rule again)
      show "reg nm = Some h" by (rule "1.prems"(1))
      show "\<forall>ctx. h ctx = Inl msg" by (rule "1.prems"(2))
      show "name ?t' = nm"
        using "1.prems"(3) by (simp add: retry_policy_fields mark_claimed_more)
      show "status ?t' = Pending" by (rule again)
      show "retry_count ?t' \<le> max_retries ?t'"
        using True by (simp add: retry_policy_fields mark_claimed_fields mark_claimed_more)
    qed
    obtain tf m where rest: "run_to_rest reg esc ?at ?t' = (tf, m)"
      by (cases "run_to_rest reg esc ?at ?t'")
    from True have r: "run_to_rest reg esc now t = (tf, Suc m)"
      by (simp only: step if_True rest prod.case)
    have mr: "max_retries ?t' = max_retries t" "retry_count ?t' = Suc (retry_count t)"
      by (simp_all add: retry_policy_fields mark_claimed_fields mark_claimed_more)
    from ih have "status tf = PermanentlyFailed \<and> error tf = Some msg \<and>
        retry_count tf = Suc (max_retries t) \<and> m = max_retries t - retry_count t"
      unfolding rest mr by simp
    then show ?thesis
      unfolding r using True by simp
  qed
qed

text \<open>
  C3. A pending async task on which no attempt was made, whose registered handler raises
  the same message on every attempt, comes to rest in \<open>permanently_failed\<close> with that
  message as its error, after exactly \<open>max_retries + 1\<close> invocations of the handler; the
  task that \<open>async\<close> stores is such a task, with \<open>max_retries\<close> as given in the options.
\<close>

theorem retries_exhausted:
  "(reg nm = Some h \<and> (\<forall>ctx. h ctx = Inl msg) \<and>
    name t = nm \<and> status t = Pending \<and> retry_count t = 0 \<longrightarrow>
      status (fst (run_to_rest reg esc now t)) = PermanentlyFailed \<and>
      error (fst (run_to_rest reg esc now t)) = Some msg \<and>
      snd (run_to_rest reg esc now t) = max_retries t + 1 \<and>
      retry_count (fst (run_to_rest reg esc now t)) = max_retries t + 1) \<and>
   snd (async t0 nm p os s) =
     s\<lparr> tasks := tasks s @ [submitted (next_id s) t0 nm p os], next_id := Suc (next_id s) \<rparr> \<and>
   name (submitted i t0 nm p os) = nm \<and>
   status (submitted i t0 nm p os) = Pending \<and>
   retry_count (submitted i t0 nm p os) = 0 \<and>
   max_retries (submitted i t0 nm p os) = opt_max_retries os"
proof (intro impI conjI)
  assume h: "reg nm = Some h \<and> (\<forall>ctx. h ctx = Inl msg) \<and>
    name t = nm \<and> status t = Pending \<and> retry_count t = 0"
  then have e: "status (fst (run_to_rest reg esc now t)) = PermanentlyFailed \<and>
     error (fst (run_to_rest reg esc now t)) = Some msg \<and>
     retry_count (fst (run_to_rest reg esc now t)) = Suc (max_retries t) \<and>
     snd (run_to_rest reg esc now t) = Suc (max_retries t) - retry_count t"
    by (intro exhaustion [of reg nm h msg t esc now]) simp_all
  show "status (fst (run_to_rest reg esc now t)) = PermanentlyFailed" using e by simp
  show "error (fst (run_to_rest reg esc now t)) = Some msg" using e by simp
  show "snd (run_to_rest reg esc now t) = max_retries t + 1" using e h by simp
  show "retry_count (fst (run_to_rest reg esc now t)) = max_retries t + 1" using e by simp
next
  show "snd (async t0 nm p os s) =
     s\<lparr> tasks := tasks s @ [submitted (next_id s) t0 nm p os], next_id := Suc (next_id s) \<rparr>"
    by (simp add: async_submits)
qed (simp_all add: submitted_def async_task_def)

theorem retries_exhausted_witness:
  "snd (async 100 ''failing_task'' ''{}'' (default_opts\<lparr> opt_max_retries := 2 \<rparr>) empty_store) =
     empty_store\<lparr> tasks := [submitted 1 100 ''failing_task'' ''{}''
                                 (default_opts\<lparr> opt_max_retries := 2 \<rparr>)],
                        next_id := 2 \<rparr> \<and>
   status (fst (run_to_rest (use_handler ''failing_task'' always_fails Map.empty) doubling 100
      (submitted 1 100 ''failing_task'' ''{}'' (default_opts\<lparr> opt_max_retries := 2 \<rparr>)))) =
     PermanentlyFailed \<and>
   error (fst (run_to_rest (use_handler ''failing_task'' always_fails Map.empty) doubling 100
      (submitted 1 100 ''failing_task'' ''{}'' (default_opts\<lparr> opt_max_retries := 2 \<rparr>)))) =
     Some ''Task failed'' \<and>
   snd (run_to_rest (use_handler ''failing_task'' always_fails Map.empty) doubling 100
      (submitted 1 100 ''failing_task'' ''{}'' (default_opts\<lparr> opt_max_retries := 2 \<rparr>))) = 3"
proof -
  let ?reg = "use_handler ''failing_task'' always_fails Map.empty"
  let ?os = "default_opts\<lparr> opt_max_retries := 2 \<rparr>"
  let ?t = "submitted 1 100 ''failing_task'' ''{}'' ?os"
  note th = retries_exhausted [where reg = ?reg and nm = "''failing_task''" and h = always_fails
      and msg = "''Task failed''" and esc = doubling and now = 100 and s = empty_store
      and ?t0.0 = 100 and p = "''{}''" and os = ?os and t = ?t and i = 1]
  have reg: "?reg ''failing_task'' = Some always_fails \<and>
      (\<forall>ctx. always_fails ctx = Inl ''Task failed'')"
    by (simp add: use_handler_def always_fails_def)
  from th have fresh: "name ?t = ''failing_task'' \<and> status ?t = Pending \<and> retry_count ?t = 0"
    by (elim conjE) (intro conjI, assumption+)
  from th have mr: "max_retries ?t = opt_max_retries ?os"
    by (elim conjE)
  from th have stored: "snd (async 100 ''failing_task'' ''{}'' ?os empty_store) =
      empty_store\<lparr> tasks := tasks empty_store @ [submitted (next_id empty_store) 100
          ''failing_task'' ''{}'' ?os], next_id := Suc (next_id empty_store) \<rparr>"
    by (elim conjE)
  from reg fresh have hyp: "?reg ''failing_task'' = Some always_fails \<and>
      (\<forall>ctx. always_fails ctx = Inl ''Task failed'') \<and>
      name ?t = ''failing_task'' \<and> status ?t = Pending \<and> retry_count ?t = 0"
    by (intro conjI) (elim conjE, assumption)+
  have run: "status (fst (run_to_rest ?reg doubling 100 ?t)) = PermanentlyFailed \<and>
      error (fst (run_to_rest ?reg doubling 100 ?t)) = Some ''Task failed'' \<and>
      snd (run_to_rest ?reg doubling 100 ?t) = max_retries ?t + 1 \<and>
      retry_count (fst (run_to_rest ?reg doubling 100 ?t)) = max_retries ?t + 1"
    using th [THEN conjunct1] hyp by (rule mp)
  have three: "max_retries ?t + 1 = 3"
    unfolding mr by simp
  have st: "snd (async 100 ''failing_task'' ''{}'' ?os empty_store) =
     empty_store\<lparr> tasks := [?t], next_id := 2 \<rparr>"
    unfolding stored by (simp add: empty_store_def)
  from run st show ?thesis
    unfolding three by (intro conjI) (elim conjE, assumption)+
qed

end
